theory Spec2Isabelle
  imports Main "HOL-Library.AList"
begin

section \<open>Go strings, integers and maps\<close>

text \<open>
  A Go string is a sequence of bytes, which is what \<open>string\<close> (a list of 8-bit
  characters) is. The functions of the standard library that the sources call are
  written out here as the Go documentation describes them, for the 64-bit \<open>int\<close>.
\<close>

datatype num_error = ErrSyntax | ErrRange

definition is_digit :: "char \<Rightarrow> bool" where
  "is_digit c = (48 \<le> (of_char c :: int) \<and> (of_char c :: int) \<le> 57)"

definition digit_val :: "char \<Rightarrow> int" where
  "digit_val c = of_char c - 48"

text \<open>\<open>strconv.ParseUint(s, 10, 64)\<close>: the digits are read left to right; a byte that
  is no digit is a syntax error, a value past \<open>2^64 - 1\<close> a range error.\<close>

fun ParseUint_loop :: "int \<Rightarrow> string \<Rightarrow> num_error + int" where
  "ParseUint_loop n [] = Inr n"
| "ParseUint_loop n (c # cs) =
     (if \<not> is_digit c then Inl ErrSyntax
      else if 2 ^ 64 \<le> n * 10 + digit_val c then Inl ErrRange
      else ParseUint_loop (n * 10 + digit_val c) cs)"

definition ParseUint :: "string \<Rightarrow> num_error + int" where
  "ParseUint s = (if s = [] then Inl ErrSyntax else ParseUint_loop 0 s)"

text \<open>\<open>strconv.Atoi(s)\<close>, that is \<open>ParseInt(s, 10, 0)\<close>: an optional sign, then
  \<open>ParseUint\<close> on the rest, then the range check of a 64-bit signed integer.\<close>

definition Atoi :: "string \<Rightarrow> num_error + int" where
  "Atoi s =
     (case s of
        [] \<Rightarrow> Inl ErrSyntax
      | c # r \<Rightarrow>
          (let neg = (c = CHR ''-'');
               ds = (if c = CHR ''+'' \<or> c = CHR ''-'' then r else s)
           in case ParseUint ds of
                Inl e \<Rightarrow> Inl e
              | Inr un \<Rightarrow>
                  if \<not> neg \<and> 2 ^ 63 \<le> un then Inl ErrRange
                  else if neg \<and> 2 ^ 63 < un then Inl ErrRange
                  else Inr (if neg then - un else un)))"

text \<open>\<open>strings.LastIndex(s, sep)\<close>: the greatest index at which \<open>sep\<close> starts in
  \<open>s\<close>, or \<open>-1\<close>.\<close>

fun LastIndex_from :: "string \<Rightarrow> string \<Rightarrow> nat \<Rightarrow> int" where
  "LastIndex_from s sep 0 = (if take (length sep) s = sep then 0 else - 1)"
| "LastIndex_from s sep (Suc i) =
     (if take (length sep) (drop (Suc i) s) = sep then int (Suc i)
      else LastIndex_from s sep i)"

definition LastIndex :: "string \<Rightarrow> string \<Rightarrow> int" where
  "LastIndex s sep = LastIndex_from s sep (length s)"

definition HasPrefix :: "string \<Rightarrow> string \<Rightarrow> bool" where
  "HasPrefix s p = (take (length p) s = p)"

definition TrimPrefix :: "string \<Rightarrow> string \<Rightarrow> string" where
  "TrimPrefix s p = (if HasPrefix s p then drop (length p) s else s)"

fun Contains :: "string \<Rightarrow> string \<Rightarrow> bool" where
  "Contains [] sub = (sub = [])"
| "Contains (c # cs) sub = (HasPrefix (c # cs) sub \<or> Contains cs sub)"

text \<open>The verb \<open>%d\<close> of \<open>fmt.Sprintf\<close>: decimal, with a minus sign below zero.\<close>

definition digit_char :: "nat \<Rightarrow> char" where
  "digit_char d = ''0123456789'' ! d"

fun dec :: "nat \<Rightarrow> string" where
  "dec n = (if n < 10 then [digit_char n] else dec (n div 10) @ [digit_char (n mod 10)])"

definition fmt_d :: "int \<Rightarrow> string" where
  "fmt_d i = (if i < 0 then CHR ''-'' # dec (nat (- i)) else dec (nat i))"

text \<open>
  A \<open>map[string]string\<close> is an association list with distinct keys: \<open>m[k]\<close> with the
  comma-ok form is \<open>map_of m k\<close>, \<open>m[k] = v\<close> is \<open>AList.update k v m\<close>,
  \<open>delete(m, k)\<close> is \<open>AList.delete k m\<close>, and \<open>range m\<close> visits the entries in the
  order of the list. Go leaves that order unspecified; every order is some list, and the
  theorems hold for every list. A nil map reads as the empty one.
\<close>

type_synonym table = "(string \<times> string) list"

definition map_get :: "table \<Rightarrow> string \<Rightarrow> string" where
  \<comment> \<open>\<open>m[k]\<close> without the comma-ok form: the zero value for a missing key\<close>
  "map_get m k = (case map_of m k of None \<Rightarrow> [] | Some v \<Rightarrow> v)"

section \<open>Errors\<close>

datatype error =
    ErrPredictableIPOutOfAddresses
  | ErrPodIndexExceedsRange int
  | ErrInvalidPodName string
  | ErrInvalidOrdinal string num_error
  | ErrAllocateFailed int
  | ErrConflictsExhausted int
  | ErrNoDesignateCR string
  | ErrNotFound
  | ErrAlreadyExists
  | ErrConflict
  | ErrOther string
  | Errorf string error

text \<open>\<open>k8s_errors.IsNotFound\<close> and \<open>IsConflict\<close> look through wrapped errors.\<close>

fun IsNotFound :: "error \<Rightarrow> bool" where
  "IsNotFound ErrNotFound = True"
| "IsNotFound (Errorf _ e) = IsNotFound e"
| "IsNotFound _ = False"

fun IsConflict :: "error \<Rightarrow> bool" where
  "IsConflict ErrConflict = True"
| "IsConflict (Errorf _ e) = IsConflict e"
| "IsConflict _ = False"

section \<open>Pod names\<close>

definition ExtractPodIndexFromName :: "string \<Rightarrow> error + int" where
  "ExtractPodIndexFromName podName =
     (let lastDashIndex = LastIndex podName ''-'' in
      if lastDashIndex = - 1 then Inl (ErrInvalidPodName podName)
      else
        (let ordinalStr = drop (nat (lastDashIndex + 1)) podName in
         case Atoi ordinalStr of
           Inl err \<Rightarrow> Inl (ErrInvalidOrdinal podName err)
         | Inr ordinal \<Rightarrow> Inr ordinal))"

text \<open>What the specification calls a numeric token: decimal digits, at least one; and
  the number such a token denotes.\<close>

definition numeric :: "string \<Rightarrow> bool" where
  "numeric tok = (tok \<noteq> [] \<and> list_all is_digit tok)"

definition dec_value :: "string \<Rightarrow> int" where
  "dec_value ds = foldl (\<lambda>n c. n * 10 + digit_val c) 0 ds"

section \<open>Addresses and the collaborators outside the repository\<close>

text \<open>
  \<open>netip.Addr\<close> belongs to the Go library, and the specification takes the address
  family as given: a deterministic successor and a string rendering. Addresses are
  therefore a type parameter \<open>'a\<close>, compared with \<open>=\<close> as Go compares \<open>netip.Addr\<close>
  with \<open>==\<close>; \<open>Next\<close> and \<open>String\<close> are fields of the record of collaborators
  below, and every theorem holds for every such record. \<open>netip.Prefix\<close> is the type
  parameter \<open>'p\<close>.

  The declarations of \<open>NADIpam\<close> and \<open>NetworkParameters\<close> are not among the
  sources; they have the fields the sources read and set.
\<close>

record ('a, 'p) NADIpam =
  CIDR :: 'p
  RangeStart :: 'a
  RangeEnd :: 'a

datatype 'p NetworkParameters = NetworkParameters 'p
  \<comment> \<open>\<open>NetworkParameters{CIDR: p}\<close>\<close>

record MultusNetworkConfig =
  net_Name :: string
  net_Namespace :: string
  net_Interface :: string
  net_IPs :: "string list"
  net_MAC :: string
  net_DefaultRoute :: "string list"

text \<open>
  The collaborators: the address library, \<open>json.Marshal\<close>, the function
  \<open>GetPredictableIPAM\<close> (its code is not among the sources, and the specification
  leaves the parsing of network parameters out of scope), and the names of the two
  sibling pools (constants declared outside the sources).
\<close>

record ('a, 'p) externals =
  Next :: "'a \<Rightarrow> 'a"
  String :: "'a \<Rightarrow> string"
  Marshal :: "MultusNetworkConfig list \<Rightarrow> error + string"
  GetPredictableIPAM :: "'p NetworkParameters \<Rightarrow> error + ('a, 'p) NADIpam"
  BindPredIPConfigMap :: string
  MdnsPredIPConfigMap :: string

section \<open>Predictable addresses by pod index\<close>

definition CreateMultusAnnotation ::
  "('a, 'p) externals \<Rightarrow> MultusNetworkConfig list \<Rightarrow> error + string" where
  "CreateMultusAnnotation ext networks =
     (if length networks = 0 then Inr []
      else case Marshal ext networks of
             Inl err \<Rightarrow> Inl (Errorf ''failed to marshal networks to JSON'' err)
           | Inr networksJSON \<Rightarrow> Inr networksJSON)"

text \<open>
  The loop \<open>for i := 0; i < podIndex; i++ { ip = ip.Next(); if ip == RangeEnd { return
  error } }\<close> of \<open>GetPodPredictableIP\<close> and \<open>CreatePredictableMultusAnnotation\<close>:
  the first argument counts the iterations left, \<open>None\<close> is the early return.
\<close>

fun index_walk :: "('a \<Rightarrow> 'a) \<Rightarrow> 'a \<Rightarrow> nat \<Rightarrow> 'a \<Rightarrow> 'a option" where
  "index_walk nxt rangeEnd 0 ip = Some ip"
| "index_walk nxt rangeEnd (Suc n) ip =
     (let ip' = nxt ip in
      if ip' = rangeEnd then None else index_walk nxt rangeEnd n ip')"

definition GetPodPredictableIP ::
  "('a, 'p) externals \<Rightarrow> ('a, 'p) NADIpam \<Rightarrow> int \<Rightarrow> error + string" where
  "GetPodPredictableIP ext predParams podIndex =
     (case index_walk (Next ext) (RangeEnd predParams) (nat podIndex) (RangeStart predParams) of
        None \<Rightarrow> Inl (ErrPodIndexExceedsRange podIndex)
      | Some ip \<Rightarrow> Inr (String ext ip))"

definition CreatePredictableMultusAnnotation ::
  "('a, 'p) externals \<Rightarrow> string \<Rightarrow> string \<Rightarrow> int \<Rightarrow> ('a, 'p) NADIpam \<Rightarrow> error + string" where
  "CreatePredictableMultusAnnotation ext networkName interfaceName podIndex predParams =
     (case index_walk (Next ext) (RangeEnd predParams) (nat podIndex) (RangeStart predParams) of
        None \<Rightarrow> Inl (ErrPodIndexExceedsRange podIndex)
      | Some ip \<Rightarrow>
          CreateMultusAnnotation ext
            [\<lparr>net_Name = networkName, net_Namespace = [], net_Interface = interfaceName,
              net_IPs = [String ext ip], net_MAC = [], net_DefaultRoute = []\<rparr>])"

text \<open>
  One loop of \<open>GeneratePredictableIPMaps\<close>: \<open>i\<close> is the loop counter, the next
  argument the iterations left; the loop breaks when \<open>ip\<close> is the end of the range. It
  returns the map and the address it stopped at, which the second loop starts from.
\<close>

fun assign_loop ::
  "('a \<Rightarrow> 'a) \<Rightarrow> ('a \<Rightarrow> string) \<Rightarrow> 'a \<Rightarrow> string \<Rightarrow> nat \<Rightarrow> nat \<Rightarrow> 'a \<Rightarrow> table \<Rightarrow> table \<times> 'a" where
  "assign_loop nxt str rangeEnd pre i 0 ip m = (m, ip)"
| "assign_loop nxt str rangeEnd pre i (Suc r) ip m =
     (if ip = rangeEnd then (m, ip)
      else assign_loop nxt str rangeEnd pre (Suc i) r (nxt ip)
             (AList.update (pre @ fmt_d (int i)) (str ip) m))"

definition GeneratePredictableIPMaps ::
  "('a, 'p) externals \<Rightarrow> ('a, 'p) NADIpam \<Rightarrow> int \<Rightarrow> int \<Rightarrow> table \<times> table" where
  "GeneratePredictableIPMaps ext predParams bindReplicas mdnsReplicas =
     (let (bindMap, ip) =
            assign_loop (Next ext) (String ext) (RangeEnd predParams) ''bind_address_''
              0 (nat bindReplicas) (RangeStart predParams) [];
          (mdnsMap, ip') =
            assign_loop (Next ext) (String ext) (RangeEnd predParams) ''mdns_address_''
              0 (nat mdnsReplicas) ip []
      in (bindMap, mdnsMap))"

text \<open>The \<open>i\<close>-th successor of the start of a range fits before its end when no
  address of the walk up to it is the end; \<open>walk_steps\<close> counts the addresses a loop
  of at most \<open>r\<close> rounds passes before it meets the end.\<close>

definition fits :: "('a \<Rightarrow> 'a) \<Rightarrow> 'a \<Rightarrow> 'a \<Rightarrow> nat \<Rightarrow> bool" where
  "fits nxt start rangeEnd i = list_all (\<lambda>j. (nxt ^^ j) start \<noteq> rangeEnd) [0..<Suc i]"

fun walk_steps :: "('a \<Rightarrow> 'a) \<Rightarrow> 'a \<Rightarrow> nat \<Rightarrow> 'a \<Rightarrow> nat" where
  "walk_steps nxt rangeEnd 0 ip = 0"
| "walk_steps nxt rangeEnd (Suc r) ip =
     (if ip = rangeEnd then 0 else Suc (walk_steps nxt rangeEnd r (nxt ip)))"

text \<open>An instance of the collaborators for the concrete runs below: IPv4 addresses by
  their four octets, with the successor and the dotted rendering of \<open>netip\<close>; network
  parameters that resolve to the range from 10.0.0.1 to 10.0.0.5 for every prefix; an
  encoder that stands in for JSON; and the names of the bind and mdns pools. Past the top
  of the family stands the zero \<open>Addr\<close>, whose successors are the further invalid
  addresses that \<open>Next\<close> counts through before it returns to the zero \<open>Addr\<close>.\<close>

datatype Addr4 = ZeroAddr | Invalid nat | IPv4 nat nat nat nat

fun Next4 :: "Addr4 \<Rightarrow> Addr4" where
  "Next4 (IPv4 a b c d) =
     (if d < 255 then IPv4 a b c (d + 1)
      else if c < 255 then IPv4 a b (c + 1) 0
      else if b < 255 then IPv4 a (b + 1) 0 0
      else if a < 255 then IPv4 (a + 1) 0 0 0
      else ZeroAddr)"
| "Next4 ZeroAddr = Invalid 1"
| "Next4 (Invalid n) = (if n + 1 = 2 ^ 128 then ZeroAddr else Invalid (n + 1))"

fun String4 :: "Addr4 \<Rightarrow> string" where
  "String4 (IPv4 a b c d) = dec a @ ''.'' @ dec b @ ''.'' @ dec c @ ''.'' @ dec d"
| "String4 ZeroAddr = ''invalid IP''"
| "String4 (Invalid n) = ''invalid IP''"

definition ext4 :: "(Addr4, string) externals" where
  "ext4 = \<lparr>Next = Next4, String = String4,
           Marshal = (\<lambda>networks.
             Inr (concat (map (\<lambda>n. net_Name n @ ''='' @ concat (net_IPs n) @ '';'') networks))),
           GetPredictableIPAM =
             (\<lambda>np. case np of NetworkParameters cidr \<Rightarrow>
                Inr \<lparr>CIDR = cidr, RangeStart = IPv4 10 0 0 1, RangeEnd = IPv4 10 0 0 5\<rparr>),
           BindPredIPConfigMap = ''designate-bind-ip-map'',
           MdnsPredIPConfigMap = ''designate-mdns-ip-map''\<rparr>"

section \<open>The object store\<close>

text \<open>
  The Kubernetes client and \<open>controllerutil.CreateOrPatch\<close> are collaborators outside
  the repository; they are written out here as their libraries behave. A cluster holds
  the ConfigMaps by namespace and name, and for every key the error, if any, with which a
  read or a write of that key fails (a transport failure, or a conflict raised by the
  store). A read returns the stored object or the not-found error; an update or a patch
  replaces a stored object; a create stores an object under a key that holds none.
\<close>

type_synonym NamespacedName = "string \<times> string"

record OwnerReference =
  owner_Kind :: string
  owner_Name :: string

datatype PodPhase = PodPending | PodRunning | PodSucceeded | PodFailed | PodUnknown

record ObjectMeta =
  Name :: string
  Namespace :: string
  Labels :: table
  Annotations :: table
  OwnerReferences :: "OwnerReference list"
  DeletionTimestamp :: "nat option"

record ConfigMap = ObjectMeta +
  Data :: table

record Pod = ObjectMeta +
  Phase :: PodPhase

record cluster =
  configMaps :: "NamespacedName \<Rightarrow> ConfigMap option"
  getFault :: "NamespacedName \<Rightarrow> error option"
  writeFault :: "NamespacedName \<Rightarrow> error option"

definition Get :: "cluster \<Rightarrow> NamespacedName \<Rightarrow> error + ConfigMap" where
  "Get c key =
     (case getFault c key of
        Some err \<Rightarrow> Inl err
      | None \<Rightarrow> (case configMaps c key of None \<Rightarrow> Inl ErrNotFound | Some cm \<Rightarrow> Inr cm))"

definition Update :: "cluster \<Rightarrow> ConfigMap \<Rightarrow> error option \<times> cluster" where
  "Update c obj =
     (let key = (Namespace obj, Name obj) in
      case writeFault c key of
        Some err \<Rightarrow> (Some err, c)
      | None \<Rightarrow>
          (case configMaps c key of
             None \<Rightarrow> (Some ErrNotFound, c)
           | Some _ \<Rightarrow> (None, c\<lparr>configMaps := (configMaps c)(key \<mapsto> obj)\<rparr>)))"

definition Create :: "cluster \<Rightarrow> ConfigMap \<Rightarrow> error option \<times> cluster" where
  "Create c obj =
     (let key = (Namespace obj, Name obj) in
      case writeFault c key of
        Some err \<Rightarrow> (Some err, c)
      | None \<Rightarrow>
          (case configMaps c key of
             Some _ \<Rightarrow> (Some ErrAlreadyExists, c)
           | None \<Rightarrow> (None, c\<lparr>configMaps := (configMaps c)(key \<mapsto> obj)\<rparr>)))"

definition Patch :: "cluster \<Rightarrow> ConfigMap \<Rightarrow> error option \<times> cluster" where
  \<comment> \<open>the patch carries the difference to the object read; applied to that object it gives \<open>obj\<close>\<close>
  "Patch c obj =
     (let key = (Namespace obj, Name obj) in
      case writeFault c key of
        Some err \<Rightarrow> (Some err, c)
      | None \<Rightarrow>
          (case configMaps c key of
             None \<Rightarrow> (Some ErrNotFound, c)
           | Some _ \<Rightarrow> (None, c\<lparr>configMaps := (configMaps c)(key \<mapsto> obj)\<rparr>)))"

text \<open>
  \<open>controllerutil.CreateOrPatch(ctx, c, obj, f)\<close> first reads the stored object into
  \<open>obj\<close>, which overwrites whatever the caller had set in it. When there is none, it
  applies the mutate function to the object handed over and creates that. Otherwise it
  applies the mutate function to the object read and sends a patch of what the function
  changed, and nothing when it changed nothing. A mutate function that changes the name or
  the namespace is an error.
\<close>

definition CreateOrPatch ::
  "cluster \<Rightarrow> ConfigMap \<Rightarrow> (ConfigMap \<Rightarrow> ConfigMap) \<Rightarrow> error option \<times> cluster" where
  "CreateOrPatch c obj mutate =
     (let key = (Namespace obj, Name obj) in
      case Get c key of
        Inl err \<Rightarrow>
          if \<not> IsNotFound err then (Some err, c)
          else
            (let obj' = mutate obj in
             if (Namespace obj', Name obj') \<noteq> key
             then (Some (ErrOther ''MutateFn cannot mutate object name and/or object namespace''), c)
             else Create c obj')
      | Inr stored \<Rightarrow>
          (let obj' = mutate stored in
           if (Namespace obj', Name obj') \<noteq> key
           then (Some (ErrOther ''MutateFn cannot mutate object name and/or object namespace''), c)
           else if obj' = stored then (None, c)
           else Patch c obj'))"

section \<open>The IP set manager\<close>

record IPSetManager =
  setName :: string
  ns :: string

definition NewIPSetManager :: "string \<Rightarrow> string \<Rightarrow> IPSetManager" where
  "NewIPSetManager name namespace = \<lparr>setName = name, ns = namespace\<rparr>"

definition handleConfigMap ::
  "cluster \<Rightarrow> IPSetManager \<Rightarrow> string \<Rightarrow> table \<Rightarrow> error + ConfigMap" where
  "handleConfigMap c m configMapName labels =
     (let nodeConfigMap =
            \<lparr>Name = configMapName, Namespace = ns m, Labels = labels, Annotations = [],
             OwnerReferences = [], DeletionTimestamp = None, Data = []\<rparr> in
      case Get c (ns m, configMapName) of
        Inl err \<Rightarrow> if IsNotFound err then Inr nodeConfigMap else Inl err
      | Inr foundMap \<Rightarrow> Inr (nodeConfigMap\<lparr>Data := Data foundMap\<rparr>))"

text \<open>
  Modelled from the spec: \<open>GetNextIP\<close>, which the sources call and do not contain.
  Section 4.3 of the specification, steps 4 and 5: walk the pool with \<open>Next()\<close>
  starting at the start of the range, skipping excluded addresses, and select the first
  address that is not excluded, strictly before the end; the walk that reaches the end
  fails with the error of an exhausted pool. The set of excluded addresses holds their
  string renderings, as the tables do. The walk need not end (a successor function may
  cycle through excluded addresses short of the end), hence the \<open>option\<close>.
\<close>

partial_function (option) GetNextIP_from ::
  "('a \<Rightarrow> 'a) \<Rightarrow> ('a \<Rightarrow> string) \<Rightarrow> 'a \<Rightarrow> string set \<Rightarrow> 'a \<Rightarrow> (error + string) option" where
  "GetNextIP_from nxt str rangeEnd excluded ip =
     (if ip = rangeEnd then Some (Inl ErrPredictableIPOutOfAddresses)
      else if str ip \<in> excluded then GetNextIP_from nxt str rangeEnd excluded (nxt ip)
      else Some (Inr (str ip)))"

definition GetNextIP ::
  "('a, 'p) externals \<Rightarrow> ('a, 'p) NADIpam \<Rightarrow> string set \<Rightarrow> (error + string) option" where
  "GetNextIP ext predParams allocatedIPs =
     GetNextIP_from (Next ext) (String ext) (RangeEnd predParams) allocatedIPs
       (RangeStart predParams)"

text \<open>The two loops of \<open>allocatePredictableIPs\<close>: the scan of the holders that keeps
  the addresses they have in the existing map, and the allocation for the others.\<close>

fun scan_holders :: "table \<Rightarrow> string list \<Rightarrow> table \<Rightarrow> string list \<Rightarrow> table \<times> string list" where
  "scan_holders existingMap [] updatedMap predictableIPsRequired =
     (updatedMap, predictableIPsRequired)"
| "scan_holders existingMap (ipHolder # rest) updatedMap predictableIPsRequired =
     (case map_of existingMap ipHolder of
        Some ipValue \<Rightarrow>
          scan_holders existingMap rest (AList.update ipHolder ipValue updatedMap)
            predictableIPsRequired
      | None \<Rightarrow>
          scan_holders existingMap rest updatedMap (predictableIPsRequired @ [ipHolder]))"

fun allocate_required ::
  "('a, 'p) externals \<Rightarrow> ('a, 'p) NADIpam \<Rightarrow> string set \<Rightarrow> string list \<Rightarrow> table \<Rightarrow>
     (error + table) option" where
  "allocate_required ext predictableIPParams allocatedIPs [] updatedMap = Some (Inr updatedMap)"
| "allocate_required ext predictableIPParams allocatedIPs (nodeName # rest) updatedMap =
     (case GetNextIP ext predictableIPParams allocatedIPs of
        None \<Rightarrow> None
      | Some (Inl err) \<Rightarrow> Some (Inl err)
      | Some (Inr ipAddress) \<Rightarrow>
          allocate_required ext predictableIPParams allocatedIPs rest
            (AList.update nodeName ipAddress updatedMap))"

definition allocatePredictableIPs ::
  "('a, 'p) externals \<Rightarrow> ('a, 'p) NADIpam \<Rightarrow> string list \<Rightarrow> table \<Rightarrow> string set \<Rightarrow>
     (error + table \<times> string set) option" where
  "allocatePredictableIPs ext predictableIPParams ipHolders existingMap allocatedIPs =
     (let (updatedMap, predictableIPsRequired) = scan_holders existingMap ipHolders [] [] in
      case allocate_required ext predictableIPParams allocatedIPs predictableIPsRequired
             updatedMap of
        None \<Rightarrow> None
      | Some (Inl err) \<Rightarrow> Some (Inl err)
      | Some (Inr updatedMap') \<Rightarrow> Some (Inr (updatedMap', allocatedIPs)))"

definition ipset_labels :: table where
  "ipset_labels =
     [(''app.kubernetes.io/name'', ''designate''), (''app.kubernetes.io/component'', ''ipset'')]"

definition sibling_values :: "cluster \<Rightarrow> NamespacedName \<Rightarrow> string set" where
  \<comment> \<open>\<open>if err == nil { for _, predIP := range cm.Data { allocatedIPs[predIP] = true } }\<close>\<close>
  "sibling_values c key =
     (case Get c key of Inl err \<Rightarrow> {} | Inr cm \<Rightarrow> set (map snd (Data cm)))"

definition AllocateIP ::
  "('a, 'p) externals \<Rightarrow> IPSetManager \<Rightarrow> 'p \<Rightarrow> int \<Rightarrow> cluster \<Rightarrow>
     ((error + string) \<times> cluster) option" where
  "AllocateIP ext m ipRange podIndex c =
     (case GetPredictableIPAM ext (NetworkParameters ipRange) of
        Inl err \<Rightarrow> Some (Inl (Errorf ''failed to get predictable IP parameters'' err), c)
      | Inr predictableIPParams \<Rightarrow>
          (let podKey = ''pod_'' @ fmt_d podIndex;
               ipHolders = [podKey] in
           case handleConfigMap c m (setName m) ipset_labels of
             Inl err \<Rightarrow> Some (Inl (Errorf ''failed to handle ConfigMap'' err), c)
           | Inr configMap \<Rightarrow>
               (let allocatedIPs =
                      sibling_values c (ns m, BindPredIPConfigMap ext) \<union>
                      sibling_values c (ns m, MdnsPredIPConfigMap ext) in
                case allocatePredictableIPs ext predictableIPParams ipHolders (Data configMap)
                       allocatedIPs of
                  None \<Rightarrow> None
                | Some (Inl err) \<Rightarrow>
                    Some (Inl (Errorf ''failed to allocate predictable IPs'' err), c)
                | Some (Inr (updatedMap, _)) \<Rightarrow>
                    (case CreateOrPatch c (configMap\<lparr>Data := updatedMap\<rparr>)
                            (\<lambda>cm. cm\<lparr>Labels := ipset_labels\<rparr>) of
                       (Some err, c') \<Rightarrow>
                         Some (Inl (Errorf ''failed to create or patch ConfigMap'' err), c')
                     | (None, c') \<Rightarrow>
                         (case map_of updatedMap podKey of
                            Some allocatedIP \<Rightarrow> Some (Inr allocatedIP, c')
                          | None \<Rightarrow> Some (Inl (ErrAllocateFailed podIndex), c'))))))"

definition IsIPAllocated :: "IPSetManager \<Rightarrow> string \<Rightarrow> cluster \<Rightarrow> bool" where
  "IsIPAllocated m ip c =
     (case Get c (ns m, setName m) of
        Inl err \<Rightarrow> False
      | Inr configMap \<Rightarrow> list_ex (\<lambda>(key, existingIP). existingIP = ip) (Data configMap))"

definition ReleaseIP :: "IPSetManager \<Rightarrow> string \<Rightarrow> cluster \<Rightarrow> error option \<times> cluster" where
  "ReleaseIP m ip c =
     (case Get c (ns m, setName m) of
        Inl err \<Rightarrow> (Some err, c)
      | Inr configMap \<Rightarrow>
          (case find (\<lambda>(key, existingIP). existingIP = ip) (Data configMap) of
             Some (key, existingIP) \<Rightarrow>
               Update c (configMap\<lparr>Data := AList.delete key (Data configMap)\<rparr>)
           | None \<Rightarrow> (None, c)))"

text \<open>Allocating for a list of pod indices one after the other, each call on the
  cluster the call before it left: the sequential scenario of the specification.\<close>

fun allocate_sequence ::
  "('a, 'p) externals \<Rightarrow> IPSetManager \<Rightarrow> 'p \<Rightarrow> int list \<Rightarrow> cluster \<Rightarrow>
     ((error + string) list \<times> cluster) option" where
  "allocate_sequence ext m ipRange [] c = Some ([], c)"
| "allocate_sequence ext m ipRange (podIndex # rest) c =
     (case AllocateIP ext m ipRange podIndex c of
        None \<Rightarrow> None
      | Some (r, c') \<Rightarrow>
          (case allocate_sequence ext m ipRange rest c' of
             None \<Rightarrow> None
           | Some (rs, c'') \<Rightarrow> Some (r # rs, c'')))"

definition empty_cluster :: cluster where
  "empty_cluster =
     \<lparr>configMaps = (\<lambda>key. None), getFault = (\<lambda>key. None), writeFault = (\<lambda>key. None)\<rparr>"

section \<open>The pod annotation controller\<close>

record Result =
  Requeue :: bool
  RequeueAfter :: int

definition Result_zero :: Result where
  \<comment> \<open>\<open>ctrl.Result{}\<close>\<close>
  "Result_zero = \<lparr>Requeue = False, RequeueAfter = 0\<rparr>"

text \<open>
  What a reconciliation does besides returning is recorded as a list of effects, in the
  order of the calls: the lines it logs, the reads and updates of the pod it sends to the
  API server, and the delays it sleeps (in milliseconds).
\<close>

datatype effect =
    LogInfo string
  | LogError error string
  | GetPod NamespacedName
  | UpdatePod Pod
  | Sleep nat

text \<open>
  The API server answers the calls about the pod; with other writers at work its answers
  are inputs of a run as the pod is: the answer to the fetch of \<open>Reconcile\<close>, the answer to
  the update of each attempt, and the answer to the re-fetch after the conflict of each
  attempt.
\<close>

record pod_api =
  FetchResp :: "error + Pod"
  UpdateResp :: "nat \<Rightarrow> error option"
  RefetchResp :: "nat \<Rightarrow> error + Pod"

definition designateServices :: "string list" where
  "designateServices = [''designate-backendbind9'', ''designate-mdns'', ''designate-unbound'']"

definition isDesignatePod :: "Pod \<Rightarrow> bool" where
  "isDesignatePod pod =
     (if map_get (Labels pod) ''app.kubernetes.io/name'' = ''designate'' then True
      else if list_ex (\<lambda>owner. owner_Kind owner = ''StatefulSet'' \<and>
                 list_ex (\<lambda>service. Contains (owner_Name owner) service) designateServices)
               (OwnerReferences pod) then True
      else list_ex (\<lambda>service.
               HasPrefix (Name pod) (service @ ''-'') \<and>
               (case TrimPrefix (Name pod) (service @ ''-'') of
                  [] \<Rightarrow> False
                | c # _ \<Rightarrow> is_digit c))
             designateServices)"

definition mergeAnnotations :: "table \<Rightarrow> table \<Rightarrow> table" where
  "mergeAnnotations existing new = fold (\<lambda>(k, v) m. AList.update k v m) new existing"

definition maxRetries :: nat where
  "maxRetries = 5"

definition baseDelay :: nat where
  \<comment> \<open>\<open>100 * time.Millisecond\<close>, in milliseconds\<close>
  "baseDelay = 100"

text \<open>The loop of \<open>updatePodAnnotationsWithRetry\<close>, from the attempt given on; it
  returns the error or \<open>None\<close> for \<open>nil\<close>, the local copy of the pod, and the
  effects.\<close>

function update_attempts ::
  "pod_api \<Rightarrow> table \<Rightarrow> nat \<Rightarrow> Pod \<Rightarrow> error option \<times> Pod \<times> effect list" where
  "update_attempts api annotations attempt pod =
     (if attempt < maxRetries then
        (let pod1 = pod\<lparr>Annotations := mergeAnnotations (Annotations pod) annotations\<rparr> in
         case UpdateResp api attempt of
           None \<Rightarrow> (None, pod1, [UpdatePod pod1])
         | Some err \<Rightarrow>
             if IsConflict err then
               (let msg = LogInfo (''Pod '' @ Name pod1 @
                            '' was modified by another controller, retrying (attempt '' @
                            fmt_d (int attempt + 1) @ ''/'' @ fmt_d (int maxRetries) @ '')'') in
                case RefetchResp api attempt of
                  Inl err' \<Rightarrow>
                    (Some (Errorf ''failed to re-fetch pod after conflict'' err'), pod1,
                     [UpdatePod pod1, msg, GetPod (Namespace pod1, Name pod1)])
                | Inr freshPod \<Rightarrow>
                    (let delay = (if attempt < maxRetries - 1
                                  then [Sleep (baseDelay * 2 ^ attempt)] else []);
                         (res, pod', effs) = update_attempts api annotations (attempt + 1) freshPod
                     in (res, pod',
                         [UpdatePod pod1, msg, GetPod (Namespace pod1, Name pod1)] @ delay @ effs)))
             else (Some (Errorf ''failed to update pod annotations'' err), pod1, [UpdatePod pod1]))
      else (Some (ErrConflictsExhausted (int maxRetries)), pod, []))"
  by pat_completeness auto
termination
  by (relation "measure (\<lambda>(api, annotations, attempt, pod). maxRetries - attempt)") auto

definition updatePodAnnotationsWithRetry ::
  "pod_api \<Rightarrow> Pod \<Rightarrow> table \<Rightarrow> error option \<times> Pod \<times> effect list" where
  "updatePodAnnotationsWithRetry api pod annotations = update_attempts api annotations 0 pod"

definition createIPSetAnnotations ::
  "('a, 'p) externals \<Rightarrow> cluster \<Rightarrow> string \<Rightarrow> string \<Rightarrow> int \<Rightarrow> ('a, 'p) NADIpam \<Rightarrow>
     ((error + table) \<times> cluster \<times> effect list) option" where
  "createIPSetAnnotations ext c networkName interfaceName podIndex predParams =
     (let ipsetName = ''designate-'' @ networkName;
          ipsetMgr = NewIPSetManager ipsetName ''openstack'' in
      case AllocateIP ext ipsetMgr (CIDR predParams) podIndex c of
        None \<Rightarrow> None
      | Some (Inl err, c') \<Rightarrow>
          Some (Inl (Errorf ''failed to allocate IP via ipset ConfigMap'' err), c', [])
      | Some (Inr predictableIP, c') \<Rightarrow>
          (let logs = [LogInfo (''Allocated IP '' @ predictableIP @ '' for pod index '' @
                         fmt_d podIndex @ '' via ipset ConfigMap'')] in
           case CreateMultusAnnotation ext
                  [\<lparr>net_Name = networkName, net_Namespace = [], net_Interface = interfaceName,
                    net_IPs = [predictableIP], net_MAC = [], net_DefaultRoute = []\<rparr>] of
             Inl err \<Rightarrow> Some (Inl err, c', logs)
           | Inr multusAnnotation \<Rightarrow>
               Some (Inr (AList.update ''designate.openstack.org/ipset-name'' ipsetName
                          (AList.update ''designate.openstack.org/pod-index'' (fmt_d podIndex)
                          (AList.update ''designate.openstack.org/predictable-ip'' predictableIP
                          (AList.update ''k8s.v1.cni.cncf.io/networks'' multusAnnotation [])))),
                     c', logs)))"

definition handlePodDeletion ::
  "cluster \<Rightarrow> Pod \<Rightarrow> (Result \<times> error option) \<times> cluster \<times> effect list" where
  "handlePodDeletion c pod =
     (let predictableIP = map_get (Annotations pod) ''designate.openstack.org/predictable-ip'';
          ipsetName = map_get (Annotations pod) ''designate.openstack.org/ipset-name'' in
      if predictableIP \<noteq> [] \<and> ipsetName \<noteq> [] then
        (let ipsetMgr = NewIPSetManager ipsetName ''openstack'' in
         case ReleaseIP ipsetMgr predictableIP c of
           (Some err, c') \<Rightarrow>
             ((Result_zero, None), c',
              [LogError err (''Failed to release IP '' @ predictableIP @
                             '' from ipset ConfigMap '' @ ipsetName)])
         | (None, c') \<Rightarrow>
             ((Result_zero, None), c',
              [LogInfo (''Released IP '' @ predictableIP @
                        '' from ipset ConfigMap '' @ ipsetName)]))
      else ((Result_zero, None), c, []))"

text \<open>
  The collaborators of \<open>Reconcile\<close> that resolve the network parameters: the list of
  the Designate resources of a namespace (of a resource, the one field the controller
  reads), the helper, the network attachment definition and its parameters. The helper and
  the definition are opaque to the controller, which only hands them on.
\<close>

record Designate =
  DesignateNetworkAttachment :: string

record ('p, 'h, 'n) resolvers =
  ListDesignates :: "string \<Rightarrow> error + Designate list"
  NewHelper :: "Designate \<Rightarrow> error + 'h"
  GetNADWithName :: "'h \<Rightarrow> string \<Rightarrow> string \<Rightarrow> error + 'n"
  GetNetworkParametersFromNAD :: "'n \<Rightarrow> error + 'p NetworkParameters"

definition getParentDesignate :: "('p, 'h, 'n) resolvers \<Rightarrow> Pod \<Rightarrow> error + Designate" where
  "getParentDesignate res pod =
     (case ListDesignates res (Namespace pod) of
        Inl err \<Rightarrow> Inl err
      | Inr items \<Rightarrow>
          (case items of
             [] \<Rightarrow> Inl (ErrNoDesignateCR (Namespace pod))
           | d # _ \<Rightarrow> Inr d))"

definition Reconcile ::
  "('a, 'p) externals \<Rightarrow> ('p, 'h, 'n) resolvers \<Rightarrow> pod_api \<Rightarrow> NamespacedName \<Rightarrow> cluster \<Rightarrow>
     ((Result \<times> error option) \<times> cluster \<times> effect list) option" where
  "Reconcile ext res api req c =
     (let start = [LogInfo ''Reconciling Pod for predictable IP annotations'', GetPod req];
          fail = (\<lambda>err msg c' effs. Some ((Result_zero, Some err), c', effs @ [LogError err msg]))
      in
      case FetchResp api of
        Inl err \<Rightarrow>
          if IsNotFound err then
            Some ((Result_zero, None), c,
                  start @ [LogInfo ''Pod resource not found. Ignoring since object must be deleted''])
          else fail err ''Failed to get Pod'' c start
      | Inr pod \<Rightarrow>
          if \<not> isDesignatePod pod then Some ((Result_zero, None), c, start)
          else if DeletionTimestamp pod \<noteq> None then
            (case handlePodDeletion c pod of
               (r, c', effs) \<Rightarrow> Some (r, c', start @ effs))
          else if map_get (Annotations pod) ''designate.openstack.org/predictable-ip'' \<noteq> [] then
            Some ((Result_zero, None), c,
                  start @ [LogInfo ''Pod already has predictable IP annotations, skipping''])
          else if Phase pod = PodSucceeded \<or> Phase pod = PodFailed then
            Some ((Result_zero, None), c,
                  start @ [LogInfo ''Pod is in terminal state, skipping annotation''])
          else
            (case ExtractPodIndexFromName (Name pod) of
               Inl err \<Rightarrow> fail err ''Failed to extract pod index from pod name'' c start
             | Inr podIndex \<Rightarrow>
            (case getParentDesignate res pod of
               Inl err \<Rightarrow> fail err ''Failed to get parent Designate CR'' c start
             | Inr parentDesignate \<Rightarrow>
            (case NewHelper res parentDesignate of
               Inl err \<Rightarrow> fail err ''Failed to create helper'' c start
             | Inr h \<Rightarrow>
            (case GetNADWithName res h (DesignateNetworkAttachment parentDesignate)
                    (Namespace pod) of
               Inl err \<Rightarrow> fail err ''Failed to get network attachment definition'' c start
             | Inr nad \<Rightarrow>
            (case GetNetworkParametersFromNAD res nad of
               Inl err \<Rightarrow> fail err ''Failed to get network parameters'' c start
             | Inr networkParameters \<Rightarrow>
            (case GetPredictableIPAM ext networkParameters of
               Inl err \<Rightarrow> fail err ''Failed to get predictable IP parameters'' c start
             | Inr predictableIPParams \<Rightarrow>
            (case createIPSetAnnotations ext c (DesignateNetworkAttachment parentDesignate)
                    ''designate'' podIndex predictableIPParams of
               None \<Rightarrow> None
             | Some (Inl err, c', effs) \<Rightarrow>
                 fail err ''Failed to create ipset annotations'' c' (start @ effs)
             | Some (Inr annotations, c', effs) \<Rightarrow>
            (case updatePodAnnotationsWithRetry api pod annotations of
               (Some err, pod', effs') \<Rightarrow>
                 fail err ''Failed to update pod annotations after retries'' c'
                   (start @ effs @ effs')
             | (None, pod', effs') \<Rightarrow>
                 Some ((Result_zero, None), c',
                       start @ effs @ effs' @
                       [LogInfo (''Successfully added predictable IP annotations to pod '' @
                          Name pod' @ '': '' @
                          map_get annotations ''designate.openstack.org/predictable-ip'')]))))))))))"

declare update_attempts.simps [simp del]

text \<open>Readings of a list of effects: the pods sent in updates, the keys re-fetched,
  the delays slept; and what it is for an attempt to meet a conflict and to have its
  re-fetch answered.\<close>

fun updates :: "effect list \<Rightarrow> Pod list" where
  "updates [] = []"
| "updates (UpdatePod p # es) = p # updates es"
| "updates (_ # es) = updates es"

fun refetches :: "effect list \<Rightarrow> NamespacedName list" where
  "refetches [] = []"
| "refetches (GetPod k # es) = k # refetches es"
| "refetches (_ # es) = refetches es"

fun sleeps :: "effect list \<Rightarrow> nat list" where
  "sleeps [] = []"
| "sleeps (Sleep d # es) = d # sleeps es"
| "sleeps (_ # es) = sleeps es"

definition conflict_refetched :: "pod_api \<Rightarrow> nat \<Rightarrow> bool" where
  "conflict_refetched api j =
     ((case UpdateResp api j of Some e \<Rightarrow> IsConflict e | None \<Rightarrow> False) \<and>
      (case RefetchResp api j of Inr p \<Rightarrow> True | Inl e \<Rightarrow> False))"


text \<open>Concrete inputs for the runs below: a pending pod of the mdns set, and an API
  server that answers the first two updates with a conflict and the third with
  success.\<close>

definition pod0 :: Pod where
  "pod0 = \<lparr>Name = ''designate-mdns-0'', Namespace = ''openstack'', Labels = [],
            Annotations = [], OwnerReferences = [], DeletionTimestamp = None,
            Phase = PodPending\<rparr>"

definition api_two_conflicts :: pod_api where
  "api_two_conflicts =
     \<lparr>FetchResp = Inr pod0,
      UpdateResp = (\<lambda>attempt. if attempt < 2 then Some ErrConflict else None),
      RefetchResp = (\<lambda>attempt. Inr pod0)\<rparr>"

text \<open>Concrete inputs for the runs below: a pool, the record of a pool with a given
  table, a cluster that holds that record and nothing else, a cluster that holds that
  record without its labels, and the sibling pool of the bind role with a given table
  beside it.\<close>

definition pool0 :: IPSetManager where
  "pool0 = NewIPSetManager ''designate-designate'' ''openstack''"

definition pool_record :: "IPSetManager \<Rightarrow> table \<Rightarrow> ConfigMap" where
  "pool_record m tbl =
     \<lparr>Name = setName m, Namespace = ns m, Labels = ipset_labels, Annotations = [],
      OwnerReferences = [], DeletionTimestamp = None, Data = tbl\<rparr>"

definition pool_cluster :: "table \<Rightarrow> cluster" where
  "pool_cluster tbl =
     empty_cluster\<lparr>configMaps :=
       (configMaps empty_cluster)((ns pool0, setName pool0) \<mapsto> pool_record pool0 tbl)\<rparr>"


definition with_bind_pool :: "table \<Rightarrow> cluster \<Rightarrow> cluster" where
  "with_bind_pool tbl c =
     c\<lparr>configMaps :=
       (configMaps c)((''openstack'', ''designate-bind-ip-map'') \<mapsto>
          pool_record (NewIPSetManager ''designate-bind-ip-map'' ''openstack'') tbl)\<rparr>"

definition deleted_pod :: Pod where
  "deleted_pod =
     pod0\<lparr>DeletionTimestamp := Some 1,
           Annotations := [(''designate.openstack.org/predictable-ip'', ''10.0.0.1''),
                           (''designate.openstack.org/ipset-name'', ''designate-designate'')]\<rparr>"

definition res0 :: "(string, unit, string) resolvers" where
  "res0 = \<lparr>ListDesignates = (\<lambda>namespace. Inr [\<lparr>DesignateNetworkAttachment = ''designate''\<rparr>]),
           NewHelper = (\<lambda>d. Inr ()),
           GetNADWithName = (\<lambda>h name namespace. Inr name),
           GetNetworkParametersFromNAD = (\<lambda>nad. Inr (NetworkParameters ''10.0.0.0/24''))\<rparr>"

definition api_of :: "Pod \<Rightarrow> pod_api" where
  \<comment> \<open>an API server that returns the pod and accepts every update\<close>
  "api_of pod = \<lparr>FetchResp = Inr pod, UpdateResp = (\<lambda>attempt. None),
                 RefetchResp = (\<lambda>attempt. Inr pod)\<rparr>"

text \<open>What \<open>AllocateIP\<close> reads: the table of its own pool as \<open>handleConfigMap\<close>
  returns it (empty when the record is not found), and the addresses of the two sibling
  pools that it excludes.\<close>

definition read_table :: "cluster \<Rightarrow> IPSetManager \<Rightarrow> error + table" where
  "read_table c m =
     (case Get c (ns m, setName m) of
        Inl err \<Rightarrow> if IsNotFound err then Inr [] else Inl err
      | Inr found \<Rightarrow> Inr (Data found))"

definition stored_table :: "cluster \<Rightarrow> IPSetManager \<Rightarrow> table" where
  \<comment> \<open>the persisted table of a pool; a pool without a record has the empty table\<close>
  "stored_table c m =
     (case configMaps c (ns m, setName m) of None \<Rightarrow> [] | Some cm \<Rightarrow> Data cm)"

definition excluded_addresses :: "('a, 'p) externals \<Rightarrow> IPSetManager \<Rightarrow> cluster \<Rightarrow> string set" where
  "excluded_addresses ext m c =
     sibling_values c (ns m, BindPredIPConfigMap ext) \<union>
     sibling_values c (ns m, MdnsPredIPConfigMap ext)"

section \<open>Properties of ordinal extraction\<close>

lemma digit_val_nonneg: "is_digit c \<Longrightarrow> 0 \<le> digit_val c"
  by (simp add: is_digit_def digit_val_def)

lemma is_digit_not_sign: "is_digit c \<Longrightarrow> c \<noteq> CHR ''+'' \<and> c \<noteq> CHR ''-''"
  by (auto simp: is_digit_def)

lemma foldl_digits_ge:
  "0 \<le> n \<Longrightarrow> list_all is_digit ds \<Longrightarrow> n \<le> foldl (\<lambda>n c. n * 10 + digit_val c) n ds"
proof (induction ds arbitrary: n)
  case Nil then show ?case by simp
next
  case (Cons c cs)
  have d: "0 \<le> digit_val c" using Cons.prems digit_val_nonneg by simp
  with Cons.prems have "n \<le> n * 10 + digit_val c" by simp
  also have "\<dots> \<le> foldl (\<lambda>n c. n * 10 + digit_val c) (n * 10 + digit_val c) cs"
    using Cons.prems d by (intro Cons.IH) auto
  finally show ?case by simp
qed

lemma ParseUint_loop_Inr:
  "0 \<le> n \<Longrightarrow> ParseUint_loop n ds = Inr v \<longleftrightarrow>
     list_all is_digit ds \<and> v = foldl (\<lambda>n c. n * 10 + digit_val c) n ds \<and>
     (ds \<noteq> [] \<longrightarrow> v < 2 ^ 64)"
proof (induction ds arbitrary: n)
  case Nil then show ?case by auto
next
  case (Cons c cs)
  show ?case
  proof (cases "is_digit c")
    case False then show ?thesis by simp
  next
    case True
    then have d: "0 \<le> digit_val c" using digit_val_nonneg by simp
    with Cons.prems have n': "0 \<le> n * 10 + digit_val c" by simp
    show ?thesis
    proof (cases "2 ^ 64 \<le> n * 10 + digit_val c")
      case big: True
      have "list_all is_digit cs \<Longrightarrow>
            n * 10 + digit_val c \<le> foldl (\<lambda>n c. n * 10 + digit_val c) (n * 10 + digit_val c) cs"
        using n' by (rule foldl_digits_ge)
      with big True show ?thesis by auto
    next
      case False
      with True Cons.IH[OF n'] show ?thesis
        by (cases cs) auto
    qed
  qed
qed

lemma ParseUint_Inr:
  "ParseUint ds = Inr v \<longleftrightarrow> numeric ds \<and> v = dec_value ds \<and> v < 2 ^ 64"
  by (auto simp: ParseUint_def numeric_def dec_value_def ParseUint_loop_Inr)

lemma dec_value_nonneg: "numeric ds \<Longrightarrow> 0 \<le> dec_value ds"
  unfolding dec_value_def numeric_def using foldl_digits_ge[of 0 ds] by simp

lemma Atoi_Nil: "Atoi [] = Inl ErrSyntax"
  by (simp add: Atoi_def)

lemma Atoi_plus:
  "Atoi (CHR ''+'' # ds) = Inr v \<longleftrightarrow> numeric ds \<and> v = dec_value ds \<and> v < 2 ^ 63"
proof (cases "ParseUint ds")
  case (Inl e)
  then have "\<not> (numeric ds \<and> dec_value ds < 2 ^ 64)"
    using ParseUint_Inr[of ds "dec_value ds"] by auto
  with Inl show ?thesis by (auto simp: Atoi_def)
next
  case (Inr un)
  then show ?thesis using ParseUint_Inr[of ds un] by (auto simp: Atoi_def)
qed

lemma Atoi_plain:
  assumes "c \<noteq> CHR ''+''" "c \<noteq> CHR ''-''"
  shows "Atoi (c # cs) = Inr v \<longleftrightarrow>
           numeric (c # cs) \<and> v = dec_value (c # cs) \<and> v < 2 ^ 63"
proof (cases "ParseUint (c # cs)")
  case (Inl e)
  then have "\<not> (numeric (c # cs) \<and> dec_value (c # cs) < 2 ^ 64)"
    using ParseUint_Inr[of "c # cs" "dec_value (c # cs)"] by auto
  with Inl assms show ?thesis by (auto simp: Atoi_def)
next
  case (Inr un)
  then show ?thesis using assms ParseUint_Inr[of "c # cs" un] by (auto simp: Atoi_def)
qed

lemma take1_dash: "take (Suc 0) (drop i s) = ''-'' \<Longrightarrow> CHR ''-'' \<in> set s"
proof -
  assume "take (Suc 0) (drop i s) = ''-''"
  then have "CHR ''-'' \<in> set (take (Suc 0) (drop i s))" by simp
  then show ?thesis by (meson in_set_dropD in_set_takeD)
qed

lemma LastIndex_from_none:
  "CHR ''-'' \<notin> set s \<Longrightarrow> LastIndex_from s ''-'' i = - 1"
proof (induction i)
  case 0 then show ?case by (cases s) auto
next
  case (Suc i)
  then show ?case using take1_dash[of "Suc i" s] by auto
qed

lemma LastIndex_from_split:
  "CHR ''-'' \<notin> set tok \<Longrightarrow> length pre \<le> i \<Longrightarrow>
     LastIndex_from (pre @ CHR ''-'' # tok) ''-'' i = int (length pre)"
proof (induction i)
  case 0 then show ?case by simp
next
  case (Suc i)
  show ?case
  proof (cases "length pre = Suc i")
    case True then show ?thesis by simp
  next
    case False
    with Suc.prems have le: "length pre \<le> i" by simp
    have "drop (Suc i) (pre @ CHR ''-'' # tok) = drop (i - length pre) tok"
      using le by (simp add: Suc_diff_le)
    moreover have "take (Suc 0) (drop (i - length pre) tok) \<noteq> ''-''"
      using take1_dash[of "i - length pre" tok] Suc.prems by auto
    ultimately show ?thesis using Suc.IH[OF Suc.prems(1) le] by simp
  qed
qed

lemma LastIndex_none: "CHR ''-'' \<notin> set s \<Longrightarrow> LastIndex s ''-'' = - 1"
  by (simp add: LastIndex_def LastIndex_from_none)

lemma LastIndex_split:
  "CHR ''-'' \<notin> set tok \<Longrightarrow> LastIndex (pre @ CHR ''-'' # tok) ''-'' = int (length pre)"
  by (simp add: LastIndex_def LastIndex_from_split)

lemma Extract_no_dash:
  "CHR ''-'' \<notin> set name \<Longrightarrow> ExtractPodIndexFromName name = Inl (ErrInvalidPodName name)"
  by (simp add: ExtractPodIndexFromName_def LastIndex_none)

lemma Extract_split:
  "CHR ''-'' \<notin> set tok \<Longrightarrow>
   ExtractPodIndexFromName (pre @ CHR ''-'' # tok) =
     (case Atoi tok of Inl err \<Rightarrow> Inl (ErrInvalidOrdinal (pre @ CHR ''-'' # tok) err)
      | Inr ordinal \<Rightarrow> Inr ordinal)"
proof -
  assume h: "CHR ''-'' \<notin> set tok"
  have "nat (int (length pre) + 1) = Suc (length pre)" by simp
  then have "drop (nat (int (length pre) + 1)) (pre @ CHR ''-'' # tok) = tok" by simp
  then show ?thesis
    using h by (simp add: ExtractPodIndexFromName_def LastIndex_split Let_def del: drop_append)
qed

lemma Atoi_token:
  assumes "CHR ''-'' \<notin> set tok"
  shows "Atoi tok = Inr n \<longleftrightarrow>
     (\<exists>ds. (tok = ds \<or> tok = CHR ''+'' # ds) \<and> numeric ds \<and> n = dec_value ds \<and> n < 2 ^ 63)"
proof (cases tok)
  case Nil
  then show ?thesis by (auto simp: Atoi_Nil numeric_def)
next
  case (Cons c cs)
  show ?thesis
  proof (cases "c = CHR ''+''")
    case True
    have "\<not> numeric (CHR ''+'' # cs)" using is_digit_not_sign by (auto simp: numeric_def)
    with True Cons show ?thesis by (auto simp: Atoi_plus)
  next
    case False
    moreover from assms Cons have "c \<noteq> CHR ''-''" by auto
    ultimately show ?thesis using Cons by (auto simp: Atoi_plain)
  qed
qed

text \<open>
  Claim C7, as the code has it. Ordinal extraction splits the name at its last \<open>-\<close> and
  parses the trailing token: it fails for a name without a separator, and it succeeds
  exactly when the trailing token is a decimal numeral below \<open>2^63\<close>, optionally
  preceded by a plus sign; the ordinal returned is the numeral's value and is never
  negative.
\<close>

theorem ExtractPodIndexFromName_ordinal:
  "(CHR ''-'' \<notin> set name \<longrightarrow> ExtractPodIndexFromName name = Inl (ErrInvalidPodName name)) \<and>
   (ExtractPodIndexFromName name = Inr n \<longleftrightarrow>
      (\<exists>pre tok ds. name = pre @ CHR ''-'' # tok \<and> CHR ''-'' \<notin> set tok \<and>
          (tok = ds \<or> tok = CHR ''+'' # ds) \<and> numeric ds \<and> n = dec_value ds \<and> n < 2 ^ 63)) \<and>
   (ExtractPodIndexFromName name = Inr n \<longrightarrow> 0 \<le> n)"
proof -
  have iff: "ExtractPodIndexFromName name = Inr n \<longleftrightarrow>
      (\<exists>pre tok ds. name = pre @ CHR ''-'' # tok \<and> CHR ''-'' \<notin> set tok \<and>
          (tok = ds \<or> tok = CHR ''+'' # ds) \<and> numeric ds \<and> n = dec_value ds \<and> n < 2 ^ 63)"
  proof (cases "CHR ''-'' \<in> set name")
    case False
    then show ?thesis by (auto simp: Extract_no_dash)
  next
    case True
    then obtain pre tok where sp: "name = pre @ CHR ''-'' # tok" "CHR ''-'' \<notin> set tok"
      using split_list_last by fastforce
    have ex: "ExtractPodIndexFromName name = Inr n \<longleftrightarrow> Atoi tok = Inr n"
      using sp by (auto simp: Extract_split split: sum.splits)
    show ?thesis
    proof
      assume "ExtractPodIndexFromName name = Inr n"
      with ex Atoi_token[OF sp(2)] sp show "\<exists>pre tok ds. name = pre @ CHR ''-'' # tok \<and>
          CHR ''-'' \<notin> set tok \<and> (tok = ds \<or> tok = CHR ''+'' # ds) \<and> numeric ds \<and>
          n = dec_value ds \<and> n < 2 ^ 63"
        by blast
    next
      assume "\<exists>pre tok ds. name = pre @ CHR ''-'' # tok \<and>
          CHR ''-'' \<notin> set tok \<and> (tok = ds \<or> tok = CHR ''+'' # ds) \<and> numeric ds \<and>
          n = dec_value ds \<and> n < 2 ^ 63"
      then obtain pre' tok' ds where h: "name = pre' @ CHR ''-'' # tok'" "CHR ''-'' \<notin> set tok'"
          "tok' = ds \<or> tok' = CHR ''+'' # ds" "numeric ds" "n = dec_value ds" "n < 2 ^ 63"
        by blast
      have "Atoi tok' = Inr n" using Atoi_token[OF h(2)] h by blast
      then show "ExtractPodIndexFromName name = Inr n"
        using h by (simp add: Extract_split)
    qed
  qed
  moreover have "ExtractPodIndexFromName name = Inr n \<longrightarrow> 0 \<le> n"
    using iff dec_value_nonneg by blast
  ultimately show ?thesis using Extract_no_dash by blast
qed

theorem ExtractPodIndexFromName_ordinal_witness:
  "ExtractPodIndexFromName ''designatemdns'' = Inl (ErrInvalidPodName ''designatemdns'') \<and>
   ExtractPodIndexFromName ''designate-mdns-3'' = Inr 3"
proof -
  have a: "CHR ''-'' \<notin> set ''designatemdns''" by simp
  have b: "''designate-mdns-3'' = ''designate-mdns'' @ CHR ''-'' # ''3'' \<and> CHR ''-'' \<notin> set ''3'' \<and>
      (''3'' = ''3'' \<or> ''3'' = CHR ''+'' # ''3'') \<and> numeric ''3'' \<and> (3::int) = dec_value ''3'' \<and> (3::int) < 2 ^ 63"
    by (simp add: numeric_def is_digit_def dec_value_def digit_val_def)
  from a ExtractPodIndexFromName_ordinal[of "''designatemdns''" 0]
  have "ExtractPodIndexFromName ''designatemdns'' = Inl (ErrInvalidPodName ''designatemdns'')"
    by blast
  moreover from b ExtractPodIndexFromName_ordinal[of "''designate-mdns-3''" 3]
  have "ExtractPodIndexFromName ''designate-mdns-3'' = Inr 3" by blast
  ultimately show ?thesis by blast
qed

text \<open>
  Claim C7 as stated fails: the trailing token \<open>+3\<close> is not numeric, and the
  extraction succeeds on it.
\<close>

theorem ExtractPodIndexFromName_plus_counterexample:
  "drop (nat (LastIndex ''designate-mdns-+3'' ''-'' + 1)) ''designate-mdns-+3'' = ''+3'' \<and>
   \<not> numeric ''+3'' \<and>
   ExtractPodIndexFromName ''designate-mdns-+3'' = Inr 3"
  by (simp add: ExtractPodIndexFromName_def LastIndex_def Atoi_def ParseUint_def
      numeric_def is_digit_def digit_val_def)

section \<open>Properties of the walk by pod index\<close>

lemma index_walk_Some:
  "index_walk nxt e n ip = Some r \<longleftrightarrow>
     r = (nxt ^^ n) ip \<and> (\<forall>i. 1 \<le> i \<and> i \<le> n \<longrightarrow> (nxt ^^ i) ip \<noteq> e)"
proof (induction n arbitrary: ip)
  case 0 then show ?case by auto
next
  case (Suc n)
  show ?case
  proof (cases "nxt ip = e")
    case True
    then have "(nxt ^^ 1) ip = e" by simp
    then have "\<not> (\<forall>i. 1 \<le> i \<and> i \<le> Suc n \<longrightarrow> (nxt ^^ i) ip \<noteq> e)"
      by (metis One_nat_def Suc_le_mono le0 order_refl)
    with True show ?thesis by (simp add: Let_def)
  next
    case False
    have "(\<forall>i. 1 \<le> i \<and> i \<le> Suc n \<longrightarrow> (nxt ^^ i) ip \<noteq> e) \<longleftrightarrow>
          (\<forall>i. 1 \<le> i \<and> i \<le> n \<longrightarrow> (nxt ^^ i) (nxt ip) \<noteq> e)" (is "?L \<longleftrightarrow> ?R")
    proof
      assume l: ?L
      show ?R
      proof (intro allI impI)
        fix i assume "1 \<le> i \<and> i \<le> n"
        then have "(nxt ^^ Suc i) ip \<noteq> e" using l by (metis Suc_le_mono le_SucI)
        then show "(nxt ^^ i) (nxt ip) \<noteq> e" by (simp add: funpow_swap1)
      qed
    next
      assume r: ?R
      show ?L
      proof (intro allI impI)
        fix i assume h: "1 \<le> i \<and> i \<le> Suc n"
        show "(nxt ^^ i) ip \<noteq> e"
        proof (cases "i = 1")
          case True with False show ?thesis by simp
        next
          case f: False
          with h obtain k where k: "i = Suc k" "1 \<le> k" "k \<le> n" by (cases i) auto
          with r have "(nxt ^^ k) (nxt ip) \<noteq> e" by blast
          with k show ?thesis by (simp add: funpow_swap1)
        qed
      qed
    qed
    with False Suc.IH[of "nxt ip"] show ?thesis by (simp add: Let_def funpow_swap1)
  qed
qed

lemma GetPodPredictableIP_result:
  "GetPodPredictableIP ext p k = Inr s \<longleftrightarrow>
     s = String ext ((Next ext ^^ nat k) (RangeStart p)) \<and>
     (\<forall>i. 1 \<le> i \<and> i \<le> nat k \<longrightarrow> (Next ext ^^ i) (RangeStart p) \<noteq> RangeEnd p)"
proof (cases "index_walk (Next ext) (RangeEnd p) (nat k) (RangeStart p)")
  case None
  then have "\<not> (\<forall>i. 1 \<le> i \<and> i \<le> nat k \<longrightarrow> (Next ext ^^ i) (RangeStart p) \<noteq> RangeEnd p)"
    using index_walk_Some[of "Next ext" "RangeEnd p" "nat k" "RangeStart p"
        "(Next ext ^^ nat k) (RangeStart p)"] by simp
  with None show ?thesis by (simp add: GetPodPredictableIP_def)
next
  case (Some r)
  then show ?thesis
    using index_walk_Some[of "Next ext" "RangeEnd p" "nat k" "RangeStart p" r]
    by (auto simp: GetPodPredictableIP_def)
qed

lemma CreatePredictableMultusAnnotation_index_0:
  "CreatePredictableMultusAnnotation ext networkName interfaceName 0 p =
     CreateMultusAnnotation ext
       [\<lparr>net_Name = networkName, net_Namespace = [], net_Interface = interfaceName,
         net_IPs = [String ext (RangeStart p)], net_MAC = [], net_DefaultRoute = []\<rparr>]"
  by (simp add: CreatePredictableMultusAnnotation_def)

text \<open>
  Claim C8 at the input where the code departs from it. The walk by pod index checks
  for the end of the range only after a step, so index 0 is returned unchecked: on the
  empty range, whose start is its end, \<open>GetPodPredictableIP\<close> succeeds and issues the
  end of the range; \<open>CreatePredictableMultusAnnotation\<close> has the same loop and
  annotates index 0 with the start of any range. (\<open>GetPodPredictableIP_result\<close>
  above is the general statement: a successful walk returns the \<open>k\<close>-th successor,
  and no address from the first successor to the \<open>k\<close>-th is the end.)
\<close>

theorem GetPodPredictableIP_issues_end:
  "GetPodPredictableIP ext4
     \<lparr>CIDR = ''10.0.0.0/24'', RangeStart = IPv4 10 0 0 1, RangeEnd = IPv4 10 0 0 1\<rparr> 0
     = Inr ''10.0.0.1'' \<and>
   String ext4 (IPv4 10 0 0 1) = ''10.0.0.1''"
  by (simp add: GetPodPredictableIP_def ext4_def digit_char_def)

section \<open>Properties of the generated address maps\<close>

lemma digit_char_inj: "d < 10 \<Longrightarrow> e < 10 \<Longrightarrow> digit_char d = digit_char e \<Longrightarrow> d = e"
proof -
  have "distinct ''0123456789''" by simp
  moreover have "length ''0123456789'' = 10" by simp
  ultimately show "d < 10 \<Longrightarrow> e < 10 \<Longrightarrow> digit_char d = digit_char e \<Longrightarrow> d = e"
    unfolding digit_char_def by (metis nth_eq_iff_index_eq)
qed

lemma dec_nonempty: "dec n \<noteq> []"
  by (subst dec.simps) simp

lemma dec_inj: "dec m = dec n \<Longrightarrow> m = n"
proof (induction m arbitrary: n rule: dec.induct)
  case (1 m)
  show ?case
  proof (cases "m < 10")
    case m: True
    show ?thesis
    proof (cases "n < 10")
      case True
      with m "1.prems" show ?thesis
        using digit_char_inj[of m n] by (simp add: dec.simps[of m] dec.simps[of n])
    next
      case False
      with m "1.prems" dec_nonempty[of "n div 10"] show ?thesis
        by (simp add: dec.simps[of m] dec.simps[of n])
    qed
  next
    case m: False
    show ?thesis
    proof (cases "n < 10")
      case True
      with m "1.prems" dec_nonempty[of "m div 10"] show ?thesis
        by (simp add: dec.simps[of m] dec.simps[of n])
    next
      case False
      with m "1.prems" have eq: "dec (m div 10) = dec (n div 10)"
        and dg: "digit_char (m mod 10) = digit_char (n mod 10)"
        by (simp_all add: dec.simps[of m] dec.simps[of n])
      from "1.IH"[OF m eq] have "m div 10 = n div 10" .
      moreover from dg have "m mod 10 = n mod 10" using digit_char_inj[of "m mod 10" "n mod 10"] by simp
      ultimately show ?thesis by (metis div_mult_mod_eq)
    qed
  qed
qed

lemma fmt_d_nat_inj: "fmt_d (int i) = fmt_d (int j) \<Longrightarrow> i = j"
  using dec_inj by (simp add: fmt_d_def)

lemma key_inj: "pre @ fmt_d (int i) = pre @ fmt_d (int j) \<longleftrightarrow> i = j"
  using fmt_d_nat_inj by auto

lemma update_fresh: "k \<notin> fst ` set m \<Longrightarrow> AList.update k v m = m @ [(k, v)]"
  by (induction m) auto

lemma assign_loop_eq:
  "\<forall>k. pre @ fmt_d (int (i + k)) \<notin> fst ` set m \<Longrightarrow>
   assign_loop nxt str e pre i r ip m =
     (m @ map (\<lambda>k. (pre @ fmt_d (int (i + k)), str ((nxt ^^ k) ip))) [0..<walk_steps nxt e r ip],
      (nxt ^^ walk_steps nxt e r ip) ip)"
proof (induction r arbitrary: i ip m)
  case 0 then show ?case by simp
next
  case (Suc r)
  show ?case
  proof (cases "ip = e")
    case True then show ?thesis by simp
  next
    case False
    let ?m = "AList.update (pre @ fmt_d (int i)) (str ip) m"
    have fresh0: "pre @ fmt_d (int i) \<notin> fst ` set m" using Suc.prems[rule_format, of 0] by simp
    then have m': "?m = m @ [(pre @ fmt_d (int i), str ip)]" by (rule update_fresh)
    have fresh': "\<forall>k. pre @ fmt_d (int (Suc i + k)) \<notin> fst ` set ?m"
    proof
      fix k
      have "pre @ fmt_d (int (Suc i + k)) \<notin> fst ` set m"
        using Suc.prems[rule_format, of "Suc k"] by simp
      moreover have "pre @ fmt_d (int (Suc i + k)) \<noteq> pre @ fmt_d (int i)"
        using key_inj[of pre "Suc i + k" i] by simp
      ultimately show "pre @ fmt_d (int (Suc i + k)) \<notin> fst ` set ?m" by (simp add: m')
    qed
    let ?c = "walk_steps nxt e r (nxt ip)"
    have "[0..<Suc ?c] = 0 # map Suc [0..<?c]"
      by (simp add: upt_conv_Cons map_Suc_upt del: upt_Suc)
    then have "map (\<lambda>k. (pre @ fmt_d (int (i + k)), str ((nxt ^^ k) ip))) [0..<Suc ?c] =
          (pre @ fmt_d (int i), str ip) #
          map (\<lambda>k. (pre @ fmt_d (int (Suc i + k)), str ((nxt ^^ k) (nxt ip)))) [0..<?c]"
      by (simp add: funpow_swap1 comp_def ac_simps del: upt_Suc)
    with False Suc.IH[OF fresh', of "nxt ip"] m' show ?thesis
      by (simp add: funpow_swap1 del: upt_Suc)
  qed
qed

lemma walk_steps_less:
  "i < walk_steps nxt e r ip \<longleftrightarrow> i < r \<and> (\<forall>j\<le>i. (nxt ^^ j) ip \<noteq> e)"
proof (induction r arbitrary: i ip)
  case 0 then show ?case by simp
next
  case (Suc r)
  show ?case
  proof (cases "ip = e")
    case True
    then have "\<not> (\<forall>j\<le>i. (nxt ^^ j) ip \<noteq> e)" by (metis funpow_0 le0)
    with True show ?thesis by simp
  next
    case False
    show ?thesis
    proof (cases i)
      case 0 with False show ?thesis by simp
    next
      case (Suc i')
      have "(\<forall>j\<le>Suc i'. (nxt ^^ j) ip \<noteq> e) \<longleftrightarrow> (\<forall>j\<le>i'. (nxt ^^ j) (nxt ip) \<noteq> e)"
        (is "?L \<longleftrightarrow> ?R")
      proof
        assume l: ?L
        show ?R
        proof (intro allI impI)
          fix j assume "j \<le> i'"
          then have "(nxt ^^ Suc j) ip \<noteq> e" using l by (metis Suc_le_mono)
          then show "(nxt ^^ j) (nxt ip) \<noteq> e" by (simp add: funpow_swap1)
        qed
      next
        assume r: ?R
        show ?L
        proof (intro allI impI)
          fix j assume h: "j \<le> Suc i'"
          show "(nxt ^^ j) ip \<noteq> e"
          proof (cases j)
            case 0 with False show ?thesis by simp
          next
            case (Suc j')
            with h r have "(nxt ^^ j') (nxt ip) \<noteq> e" by simp
            with Suc show ?thesis by (simp add: funpow_swap1)
          qed
        qed
      qed
      with False Suc Suc.IH[of i' "nxt ip"] show ?thesis by simp
    qed
  qed
qed

lemma walk_steps_le: "walk_steps nxt e r ip \<le> r"
  by (induction r arbitrary: ip) auto

lemma walk_steps_stop:
  "walk_steps nxt e r ip < r \<Longrightarrow> (nxt ^^ walk_steps nxt e r ip) ip = e"
proof (induction r arbitrary: ip)
  case 0 then show ?case by simp
next
  case (Suc r)
  then show ?case by (cases "ip = e") (auto simp: funpow_swap1)
qed

lemma fits_iff: "fits nxt s e i \<longleftrightarrow> (\<forall>j\<le>i. (nxt ^^ j) s \<noteq> e)"
proof -
  have "set [0..<Suc i] = {j. j \<le> i}" by auto
  then show ?thesis by (simp add: fits_def list_all_iff)
qed

lemma map_of_keyed:
  "map_of (map (\<lambda>k. (pre @ fmt_d (int k), v k)) [0..<c]) (pre @ fmt_d (int i)) =
     (if i < c then Some (v i) else None)"
proof (induction c)
  case 0 then show ?case by simp
next
  case (Suc c)
  then show ?case using key_inj[of pre i c] by (auto simp: map_of_append map_add_def split: option.splits)
qed


lemma map_upt_shift:
  "map f [0..<a] @ map (\<lambda>k. f (a + k)) [0..<c] = map f [0..<a + c]"
proof -
  have "map (\<lambda>k. a + k) [0..<c] = [a..<a + c]"
    using map_add_upt[of a c] by (simp add: add.commute)
  then have "[0..<a + c] = [0..<a] @ map (\<lambda>k. a + k) [0..<c]"
    using upt_add_eq_append[of 0 a c] by simp
  then show ?thesis by (simp add: comp_def)
qed

text \<open>
  Claim C10. Take a range in which the successive \<open>Next()\<close> addresses of the start
  are distinct (and distinct addresses are rendered as distinct strings), and replica
  counts \<open>b\<close> and \<open>m\<close>. The bind map binds \<open>bind_address_i\<close>, for \<open>i < b\<close>, to the
  \<open>i\<close>-th successor of the start when that fits before the end, and has no entry
  for it otherwise; the mdns map binds \<open>mdns_address_j\<close>, for \<open>j < m\<close>, to the
  \<open>(b+j)\<close>-th successor when that fits, and has no entry otherwise; the addresses
  assigned are pairwise distinct, and none is the end of the range. The function has no
  error result: replicas that do not fit are left out.
\<close>

theorem GeneratePredictableIPMaps_assignment:
  assumes gen: "GeneratePredictableIPMaps ext p b m = (bindMap, mdnsMap)"
    and dist: "distinct (map (\<lambda>i. (Next ext ^^ i) (RangeStart p)) [0..<nat b + nat m])"
    and rend: "inj_on (String ext)
                 (set (RangeEnd p # map (\<lambda>i. (Next ext ^^ i) (RangeStart p)) [0..<nat b + nat m]))"
  shows "(\<forall>i<nat b. map_of bindMap (''bind_address_'' @ fmt_d (int i)) =
            (if fits (Next ext) (RangeStart p) (RangeEnd p) i
             then Some (String ext ((Next ext ^^ i) (RangeStart p))) else None)) \<and>
         (\<forall>j<nat m. map_of mdnsMap (''mdns_address_'' @ fmt_d (int j)) =
            (if fits (Next ext) (RangeStart p) (RangeEnd p) (nat b + j)
             then Some (String ext ((Next ext ^^ (nat b + j)) (RangeStart p))) else None)) \<and>
         distinct (map snd bindMap @ map snd mdnsMap) \<and>
         String ext (RangeEnd p) \<notin> snd ` set (bindMap @ mdnsMap)"
proof -
  define bpre where "bpre = ''bind_address_''"
  define mpre where "mpre = ''mdns_address_''"
  define nxt where "nxt = Next ext"
  define str where "str = String ext"
  define e where "e = RangeEnd p"
  define S where "S = (\<lambda>i. (nxt ^^ i) (RangeStart p))"
  define nb where "nb = walk_steps nxt e (nat b) (RangeStart p)"
  define nm where "nm = walk_steps nxt e (nat m) (S nb)"
  have bind_eq: "assign_loop nxt str e bpre 0 (nat b) (RangeStart p) [] =
      (map (\<lambda>k. (bpre @ fmt_d (int k), str (S k))) [0..<nb], S nb)"
    using assign_loop_eq[of "bpre" 0 "[]" nxt str e "nat b" "RangeStart p"]
    by (simp add: nb_def S_def)
  have mdns_eq: "assign_loop nxt str e mpre 0 (nat m) (S nb) [] =
      (map (\<lambda>k. (mpre @ fmt_d (int k), str (S (nb + k)))) [0..<nm], (nxt ^^ nm) (S nb))"
    using assign_loop_eq[of "mpre" 0 "[]" nxt str e "nat m" "S nb"]
    by (simp add: nm_def S_def funpow_add add.commute)
  from gen have bm: "bindMap = map (\<lambda>k. (bpre @ fmt_d (int k), str (S k))) [0..<nb]"
    and mm: "mdnsMap = map (\<lambda>k. (mpre @ fmt_d (int k), str (S (nb + k)))) [0..<nm]"
    using bind_eq mdns_eq
    by (simp_all add: GeneratePredictableIPMaps_def nxt_def[symmetric] str_def[symmetric]
        e_def[symmetric] bpre_def[symmetric] mpre_def[symmetric])
  have fits_S: "\<And>i. fits nxt (RangeStart p) e i \<longleftrightarrow> (\<forall>j\<le>i. S j \<noteq> e)"
    by (simp add: fits_iff S_def)
  have nb_less: "\<And>i. i < nb \<longleftrightarrow> i < nat b \<and> fits nxt (RangeStart p) e i"
    by (simp add: nb_def walk_steps_less fits_S S_def)
  have nm_less: "\<And>j. j < nm \<longleftrightarrow> j < nat m \<and> (\<forall>k\<le>j. S (nb + k) \<noteq> e)"
    by (simp add: nm_def walk_steps_less S_def funpow_add add.commute)
  have nb_le: "nb \<le> nat b" by (simp add: nb_def walk_steps_le)
  have nm_le: "nm \<le> nat m" by (simp add: nm_def walk_steps_le)
  have mdns_fit: "j < nm \<longleftrightarrow> fits nxt (RangeStart p) e (nat b + j)" if j: "j < nat m" for j
  proof (cases "nb = nat b")
    case True
    have "(\<forall>k\<le>j. S (nb + k) \<noteq> e) \<longleftrightarrow> (\<forall>k\<le>nat b + j. S k \<noteq> e)" (is "?L \<longleftrightarrow> ?R")
    proof
      assume l: ?L
      show ?R
      proof (intro allI impI)
        fix k assume k: "k \<le> nat b + j"
        show "S k \<noteq> e"
        proof (cases "k < nb")
          case True
          then have "fits nxt (RangeStart p) e k" using nb_less by blast
          then show ?thesis using fits_S by blast
        next
          case False
          then have "k = nb + (k - nb)" "k - nb \<le> j" using k \<open>nb = nat b\<close> by auto
          with l show ?thesis by metis
        qed
      qed
    next
      assume ?R
      then show ?L using True by simp
    qed
    with j show ?thesis using nm_less fits_S by simp
  next
    case False
    with nb_le have lt: "nb < nat b" by simp
    then have stop: "S nb = e" using walk_steps_stop[of nxt e "nat b" "RangeStart p"]
      by (simp add: nb_def S_def)
    then have "nm = 0" unfolding nm_def by (cases "nat m") simp_all
    moreover have "\<not> fits nxt (RangeStart p) e (nat b + j)"
      using stop lt fits_S by (metis le_add1 less_imp_le order_trans)
    ultimately show ?thesis by simp
  qed
  have mdns_nb: "nb = nat b" if "j < nm" for j
  proof (rule ccontr)
    assume "nb \<noteq> nat b"
    with nb_le have "nb < nat b" by simp
    then have "S nb = e" using walk_steps_stop[of nxt e "nat b" "RangeStart p"]
      by (simp add: nb_def S_def)
    moreover have "S (nb + 0) \<noteq> e" using that nm_less by blast
    ultimately show False by simp
  qed
  have c1: "\<forall>i<nat b. map_of bindMap (bpre @ fmt_d (int i)) =
            (if fits nxt (RangeStart p) e i then Some (str (S i)) else None)"
    using nb_less by (simp add: bm map_of_keyed)
  have c2: "\<forall>j<nat m. map_of mdnsMap (mpre @ fmt_d (int j)) =
            (if fits nxt (RangeStart p) e (nat b + j) then Some (str (S (nat b + j))) else None)"
  proof (intro allI impI)
    fix j assume j: "j < nat m"
    show "map_of mdnsMap (mpre @ fmt_d (int j)) =
            (if fits nxt (RangeStart p) e (nat b + j) then Some (str (S (nat b + j))) else None)"
      using mdns_fit[OF j] mdns_nb[of j] by (simp add: mm map_of_keyed)
  qed
  have vals: "map snd bindMap @ map snd mdnsMap = map (\<lambda>k. str (S k)) [0..<nb + nm]"
    using map_upt_shift[of "\<lambda>k. str (S k)" nb nm] by (simp add: bm mm comp_def)
  have sub: "{..<nb + nm} \<subseteq> {..<nat b + nat m}" using nb_le nm_le by auto
  have injS: "inj_on S {..<nat b + nat m}"
    using dist by (simp add: S_def nxt_def distinct_map atLeast0LessThan)
  have injstr: "inj_on str (insert e (S ` {..<nat b + nat m}))"
    using rend by (simp add: S_def nxt_def str_def e_def atLeast0LessThan)
  have "inj_on str (S ` {..<nat b + nat m})"
    using injstr by (rule inj_on_subset) blast
  with injS have "inj_on (str \<circ> S) {..<nat b + nat m}" by (rule comp_inj_on)
  then have "inj_on (str \<circ> S) {..<nb + nm}" using sub by (rule inj_on_subset)
  then have "inj_on (\<lambda>k. str (S k)) {..<nb + nm}" by (simp add: comp_def)
  then have c3: "distinct (map snd bindMap @ map snd mdnsMap)"
    by (simp add: vals distinct_map atLeast0LessThan)
  have not_end: "S k \<noteq> e" if "k < nb + nm" for k
  proof (cases "k < nb")
    case True
    then show ?thesis using nb_less fits_S by blast
  next
    case False
    then have "k - nb < nm" "k = nb + (k - nb)" using that by auto
    then show ?thesis using nm_less by (metis order_refl)
  qed
  have c4: "str e \<notin> snd ` set (bindMap @ mdnsMap)"
  proof
    assume "str e \<in> snd ` set (bindMap @ mdnsMap)"
    then have "str e \<in> set (map snd bindMap @ map snd mdnsMap)" by (simp add: image_Un)
    then obtain k where k: "k < nb + nm" "str (S k) = str e" unfolding vals by auto
    from k(1) sub have "S k \<in> insert e (S ` {..<nat b + nat m})" by auto
    with injstr k(2) have "S k = e" by (meson inj_onD insertI1)
    with not_end[OF k(1)] show False by simp
  qed
  from c1 c2 c3 c4 show ?thesis
    unfolding S_def nxt_def str_def e_def bpre_def mpre_def by blast
qed

lemma inj_on_set_remdups: "distinct (map f (remdups xs)) \<Longrightarrow> inj_on f (set xs)"
  by (metis distinct_map set_remdups)

theorem GeneratePredictableIPMaps_assignment_witness:
  "GeneratePredictableIPMaps ext4
     \<lparr>CIDR = ''10.0.0.0/24'', RangeStart = IPv4 10 0 0 1, RangeEnd = IPv4 10 0 0 4\<rparr> 2 2 =
   ([(''bind_address_0'', ''10.0.0.1''), (''bind_address_1'', ''10.0.0.2'')],
    [(''mdns_address_0'', ''10.0.0.3'')]) \<and>
   map_of [(''bind_address_0'', ''10.0.0.1''), (''bind_address_1'', ''10.0.0.2'')]
     (''bind_address_'' @ fmt_d (int 1)) =
     Some (String ext4 ((Next ext4 ^^ 1) (IPv4 10 0 0 1))) \<and>
   map_of [(''mdns_address_0'', ''10.0.0.3'')] (''mdns_address_'' @ fmt_d (int 1)) = None \<and>
   distinct (map snd [(''bind_address_0'', ''10.0.0.1''), (''bind_address_1'', ''10.0.0.2'')] @
             map snd [(''mdns_address_0'', ''10.0.0.3'')]) \<and>
   String ext4 (IPv4 10 0 0 4) \<notin>
     snd ` set ([(''bind_address_0'', ''10.0.0.1''), (''bind_address_1'', ''10.0.0.2'')] @
                [(''mdns_address_0'', ''10.0.0.3'')])"
proof -
  let ?p = "\<lparr>CIDR = ''10.0.0.0/24'', RangeStart = IPv4 10 0 0 1, RangeEnd = IPv4 10 0 0 4\<rparr>"
  let ?bm = "[(''bind_address_0'', ''10.0.0.1''), (''bind_address_1'', ''10.0.0.2'')]"
  let ?mm = "[(''mdns_address_0'', ''10.0.0.3'')]"
  have gen: "GeneratePredictableIPMaps ext4 ?p 2 2 = (?bm, ?mm)"
    by code_simp
  have dist: "distinct (map (\<lambda>i. (Next ext4 ^^ i) (RangeStart ?p)) [0..<nat 2 + nat 2])"
    by code_simp
  have "distinct (map (String ext4)
      (remdups (RangeEnd ?p # map (\<lambda>i. (Next ext4 ^^ i) (RangeStart ?p)) [0..<nat 2 + nat 2])))"
    by code_simp
  then have rend: "inj_on (String ext4)
      (set (RangeEnd ?p # map (\<lambda>i. (Next ext4 ^^ i) (RangeStart ?p)) [0..<nat 2 + nat 2]))"
    by (rule inj_on_set_remdups)
  have f1: "fits (Next ext4) (RangeStart ?p) (RangeEnd ?p) 1"
    by code_simp
  have f3: "\<not> fits (Next ext4) (RangeStart ?p) (RangeEnd ?p) (nat 2 + 1)"
    by code_simp
  have lt: "(1::nat) < nat 2" by simp
  note T = GeneratePredictableIPMaps_assignment[OF gen dist rend]
  have a: "map_of ?bm (''bind_address_'' @ fmt_d (int 1)) =
        (if fits (Next ext4) (RangeStart ?p) (RangeEnd ?p) 1
         then Some (String ext4 ((Next ext4 ^^ 1) (RangeStart ?p))) else None)"
    by (rule T[THEN conjunct1, rule_format, OF lt])
  have b: "map_of ?mm (''mdns_address_'' @ fmt_d (int 1)) =
        (if fits (Next ext4) (RangeStart ?p) (RangeEnd ?p) (nat 2 + 1)
         then Some (String ext4 ((Next ext4 ^^ (nat 2 + 1)) (RangeStart ?p))) else None)"
    by (rule T[THEN conjunct2, THEN conjunct1, rule_format, OF lt])
  have c: "distinct (map snd ?bm @ map snd ?mm)"
    by (rule T[THEN conjunct2, THEN conjunct2, THEN conjunct1])
  have d: "String ext4 (RangeEnd ?p) \<notin> snd ` set (?bm @ ?mm)"
    by (rule T[THEN conjunct2, THEN conjunct2, THEN conjunct2])
  have rs: "RangeStart ?p = IPv4 10 0 0 1" and re: "RangeEnd ?p = IPv4 10 0 0 4" by simp_all
  from a f1 have a': "map_of ?bm (''bind_address_'' @ fmt_d (int 1)) =
      Some (String ext4 ((Next ext4 ^^ 1) (IPv4 10 0 0 1)))"
    by (simp only: if_True rs)
  from b f3 have b': "map_of ?mm (''mdns_address_'' @ fmt_d (int 1)) = None"
    by (simp only: if_False)
  from d have d': "String ext4 (IPv4 10 0 0 4) \<notin> snd ` set (?bm @ ?mm)"
    by simp
  from gen a' b' c d' show ?thesis by blast
qed

section \<open>Properties of the annotation write retry\<close>

lemma updates_append: "updates (xs @ ys) = updates xs @ updates ys"
  by (induction xs rule: updates.induct) auto

lemma refetches_append: "refetches (xs @ ys) = refetches xs @ refetches ys"
  by (induction xs rule: refetches.induct) auto

lemma sleeps_append: "sleeps (xs @ ys) = sleeps xs @ sleeps ys"
  by (induction xs rule: sleeps.induct) auto

text \<open>The delays of the attempts from \<open>a\<close> up to \<open>i\<close>: none after the last attempt.\<close>

lemma attempts_run:
  "a + k = i \<Longrightarrow> i \<le> maxRetries \<Longrightarrow> (\<forall>j. a \<le> j \<and> j < i \<longrightarrow> conflict_refetched api j) \<Longrightarrow>
   \<exists>pod_i pre. update_attempts api ann a pod =
        (case update_attempts api ann i pod_i of (r, p, effs) \<Rightarrow> (r, p, pre @ effs)) \<and>
      length (updates pre) = k \<and> length (refetches pre) = k \<and>
      sleeps pre = map (\<lambda>j. baseDelay * 2 ^ j) (filter (\<lambda>j. j < maxRetries - 1) [a..<i])"
proof (induction k arbitrary: a pod)
  case 0
  then have "a = i" by simp
  then show ?case
    by (intro exI[of _ pod] exI[of _ "[]"]) (auto split: prod.splits)
next
  case (Suc k)
  from Suc.prems have a5: "a < maxRetries" and ai: "a < i" by auto
  from Suc.prems ai have crf: "conflict_refetched api a" by simp
  then obtain e fresh where e: "UpdateResp api a = Some e" "IsConflict e"
    and fr: "RefetchResp api a = Inr fresh"
    by (auto simp: conflict_refetched_def split: option.splits sum.splits)
  have rest: "\<forall>j. Suc a \<le> j \<and> j < i \<longrightarrow> conflict_refetched api j" using Suc.prems by auto
  have "Suc a + k = i" using Suc.prems by simp
  from Suc.IH[OF this Suc.prems(2) rest, of fresh]
  obtain pod_i pre where ih:
      "update_attempts api ann (Suc a) fresh =
         (case update_attempts api ann i pod_i of (r, p, effs) \<Rightarrow> (r, p, pre @ effs))"
      "length (updates pre) = k" "length (refetches pre) = k"
      "sleeps pre = map (\<lambda>j. baseDelay * 2 ^ j) (filter (\<lambda>j. j < maxRetries - 1) [Suc a..<i])"
    by blast
  define pod1 where "pod1 = pod\<lparr>Annotations := mergeAnnotations (Annotations pod) ann\<rparr>"
  define msg where "msg = LogInfo (''Pod '' @ Name pod1 @
                            '' was modified by another controller, retrying (attempt '' @
                            fmt_d (int a + 1) @ ''/'' @ fmt_d (int maxRetries) @ '')'')"
  define delay where "delay = (if a < maxRetries - 1 then [Sleep (baseDelay * 2 ^ a)] else [])"
  define pre' where "pre' = [UpdatePod pod1, msg, GetPod (Namespace pod1, Name pod1)] @ delay @ pre"
  have unfold: "update_attempts api ann a pod =
      (case update_attempts api ann (Suc a) fresh of
         (res, pod', effs) \<Rightarrow>
           (res, pod', [UpdatePod pod1, msg, GetPod (Namespace pod1, Name pod1)] @ delay @ effs))"
    using a5 e fr
    by (subst update_attempts.simps)
       (simp add: Let_def pod1_def msg_def delay_def split: prod.splits)
  have eq: "update_attempts api ann a pod =
        (case update_attempts api ann i pod_i of (r, p, effs) \<Rightarrow> (r, p, pre' @ effs))"
    unfolding unfold ih(1) pre'_def by (simp split: prod.splits)
  have upt: "[a..<i] = a # [Suc a..<i]" using ai by (simp add: upt_conv_Cons)
  have "length (updates pre') = Suc k" "length (refetches pre') = Suc k"
    using ih by (simp_all add: pre'_def updates_append refetches_append msg_def delay_def)
  moreover have "sleeps pre' =
      map (\<lambda>j. baseDelay * 2 ^ j) (filter (\<lambda>j. j < maxRetries - 1) [a..<i])"
    using ih by (simp add: pre'_def sleeps_append msg_def delay_def upt)
  ultimately show ?case using eq by blast
qed


lemma delays_closed:
  "map (\<lambda>j. baseDelay * 2 ^ j) (filter (\<lambda>j. j < maxRetries - 1) [0..<0]) = take 0 [100, 200, 400, 800]"
  "map (\<lambda>j. baseDelay * 2 ^ j) (filter (\<lambda>j. j < maxRetries - 1) [0..<1]) = take 1 [100, 200, 400, 800]"
  "map (\<lambda>j. baseDelay * 2 ^ j) (filter (\<lambda>j. j < maxRetries - 1) [0..<2]) = take 2 [100, 200, 400, 800]"
  "map (\<lambda>j. baseDelay * 2 ^ j) (filter (\<lambda>j. j < maxRetries - 1) [0..<3]) = take 3 [100, 200, 400, 800]"
  "map (\<lambda>j. baseDelay * 2 ^ j) (filter (\<lambda>j. j < maxRetries - 1) [0..<4]) = take 4 [100, 200, 400, 800]"
  "map (\<lambda>j. baseDelay * 2 ^ j) (filter (\<lambda>j. j < maxRetries - 1) [0..<5]) = [100, 200, 400, 800]"
  by code_simp+

lemma delays_take:
  assumes "i \<le> 5"
  shows "map (\<lambda>j. baseDelay * 2 ^ j) (filter (\<lambda>j. j < maxRetries - 1) [0..<i]) =
         take i [100, 200, 400, 800]"
proof -
  from assms have "i = 0 \<or> i = 1 \<or> i = 2 \<or> i = 3 \<or> i = 4 \<or> i = 5" by arith
  then show ?thesis using delays_closed by (elim disjE) simp_all
qed

lemma attempt_success:
  "i < maxRetries \<Longrightarrow> UpdateResp api i = None \<Longrightarrow>
   \<exists>p1. update_attempts api ann i p = (None, p1, [UpdatePod p1])"
  by (subst update_attempts.simps) (simp add: Let_def)

lemma attempt_other_error:
  "i < maxRetries \<Longrightarrow> UpdateResp api i = Some err \<Longrightarrow> \<not> IsConflict err \<Longrightarrow>
   \<exists>p1. update_attempts api ann i p =
     (Some (Errorf ''failed to update pod annotations'' err), p1, [UpdatePod p1])"
  by (subst update_attempts.simps) (simp add: Let_def)

lemma attempt_refetch_error:
  "i < maxRetries \<Longrightarrow> UpdateResp api i = Some err \<Longrightarrow> IsConflict err \<Longrightarrow>
   RefetchResp api i = Inl e' \<Longrightarrow>
   \<exists>p1 msg k. update_attempts api ann i p =
     (Some (Errorf ''failed to re-fetch pod after conflict'' e'), p1,
      [UpdatePod p1, LogInfo msg, GetPod k])"
  by (subst update_attempts.simps) (simp add: Let_def)

lemma attempts_exhausted:
  "update_attempts api ann maxRetries p = (Some (ErrConflictsExhausted (int maxRetries)), p, [])"
  by (subst update_attempts.simps) simp

lemma retry_stops_at:
  assumes run: "updatePodAnnotationsWithRetry api pod annotations = (res, pod', effs)"
    and i: "i < 5" and before: "\<forall>j<i. conflict_refetched api j"
  shows "(UpdateResp api i = None \<longrightarrow>
            res = None \<and> length (updates effs) = i + 1 \<and> length (refetches effs) = i \<and>
            sleeps effs = take i [100, 200, 400, 800]) \<and>
         (\<forall>err. UpdateResp api i = Some err \<and> \<not> IsConflict err \<longrightarrow>
            res = Some (Errorf ''failed to update pod annotations'' err) \<and>
            length (updates effs) = i + 1 \<and> length (refetches effs) = i \<and>
            sleeps effs = take i [100, 200, 400, 800]) \<and>
         (\<forall>err e'. UpdateResp api i = Some err \<and> IsConflict err \<and> RefetchResp api i = Inl e' \<longrightarrow>
            res = Some (Errorf ''failed to re-fetch pod after conflict'' e') \<and>
            length (updates effs) = i + 1 \<and> length (refetches effs) = i + 1 \<and>
            sleeps effs = take i [100, 200, 400, 800])"
proof -
  have i5: "i < maxRetries" "i \<le> maxRetries" "i \<le> 5" using i by (simp_all add: maxRetries_def)
  from attempts_run[of 0 i i api annotations pod] i5 before
  obtain pod_i pre where pre:
      "update_attempts api annotations 0 pod =
         (case update_attempts api annotations i pod_i of (r, p, effs) \<Rightarrow> (r, p, pre @ effs))"
      "length (updates pre) = i" "length (refetches pre) = i"
      "sleeps pre = take i [100, 200, 400, 800]"
    using delays_take[OF i5(3)] by auto
  have A: "UpdateResp api i = None \<longrightarrow>
            res = None \<and> length (updates effs) = i + 1 \<and> length (refetches effs) = i \<and>
            sleeps effs = take i [100, 200, 400, 800]"
  proof
    assume "UpdateResp api i = None"
    from attempt_success[OF i5(1) this, of annotations pod_i] obtain p1 where
      "update_attempts api annotations i pod_i = (None, p1, [UpdatePod p1])" by blast
    with pre run show "res = None \<and> length (updates effs) = i + 1 \<and>
        length (refetches effs) = i \<and> sleeps effs = take i [100, 200, 400, 800]"
      by (auto simp: updatePodAnnotationsWithRetry_def updates_append refetches_append
          sleeps_append)
  qed
  have B: "\<forall>err. UpdateResp api i = Some err \<and> \<not> IsConflict err \<longrightarrow>
            res = Some (Errorf ''failed to update pod annotations'' err) \<and>
            length (updates effs) = i + 1 \<and> length (refetches effs) = i \<and>
            sleeps effs = take i [100, 200, 400, 800]"
  proof (intro allI impI)
    fix err assume "UpdateResp api i = Some err \<and> \<not> IsConflict err"
    with attempt_other_error[OF i5(1), of api err annotations pod_i] obtain p1 where
      "update_attempts api annotations i pod_i =
         (Some (Errorf ''failed to update pod annotations'' err), p1, [UpdatePod p1])" by blast
    with pre run show "res = Some (Errorf ''failed to update pod annotations'' err) \<and>
        length (updates effs) = i + 1 \<and> length (refetches effs) = i \<and>
        sleeps effs = take i [100, 200, 400, 800]"
      by (auto simp: updatePodAnnotationsWithRetry_def updates_append refetches_append
          sleeps_append)
  qed
  have C: "\<forall>err e'. UpdateResp api i = Some err \<and> IsConflict err \<and> RefetchResp api i = Inl e' \<longrightarrow>
            res = Some (Errorf ''failed to re-fetch pod after conflict'' e') \<and>
            length (updates effs) = i + 1 \<and> length (refetches effs) = i + 1 \<and>
            sleeps effs = take i [100, 200, 400, 800]"
  proof (intro allI impI)
    fix err e' assume "UpdateResp api i = Some err \<and> IsConflict err \<and> RefetchResp api i = Inl e'"
    with attempt_refetch_error[OF i5(1), of api err e' annotations pod_i] obtain p1 msg k where
      "update_attempts api annotations i pod_i =
         (Some (Errorf ''failed to re-fetch pod after conflict'' e'), p1,
          [UpdatePod p1, LogInfo msg, GetPod k])" by blast
    with pre run show "res = Some (Errorf ''failed to re-fetch pod after conflict'' e') \<and>
        length (updates effs) = i + 1 \<and> length (refetches effs) = i + 1 \<and>
        sleeps effs = take i [100, 200, 400, 800]"
      by (auto simp: updatePodAnnotationsWithRetry_def updates_append refetches_append
          sleeps_append)
  qed
  from A B C show ?thesis by blast
qed

lemma retry_exhausted:
  assumes run: "updatePodAnnotationsWithRetry api pod annotations = (res, pod', effs)"
    and all: "\<forall>j<5. conflict_refetched api j"
  shows "res = Some (ErrConflictsExhausted 5) \<and> length (updates effs) = 5 \<and>
         length (refetches effs) = 5 \<and> sleeps effs = [100, 200, 400, 800]"
proof -
  have m: "maxRetries = 5" by (simp add: maxRetries_def)
  from attempts_run[of 0 5 5 api annotations pod] all m
  obtain pod_i pre where pre:
      "update_attempts api annotations 0 pod =
         (case update_attempts api annotations 5 pod_i of (r, p, effs) \<Rightarrow> (r, p, pre @ effs))"
      "length (updates pre) = 5" "length (refetches pre) = 5"
      "sleeps pre = [100, 200, 400, 800]"
    using delays_closed(6) by auto
  from attempts_exhausted[of api annotations pod_i] m
  have "update_attempts api annotations 5 pod_i = (Some (ErrConflictsExhausted 5), pod_i, [])"
    by simp
  with pre run show ?thesis
    by (auto simp: updatePodAnnotationsWithRetry_def)
qed

lemma first_stop:
  "(\<forall>j<n. P j) \<or> (\<exists>i<n. (\<forall>j<i. P j) \<and> \<not> P i)" for n :: nat
proof (induction n)
  case 0 then show ?case by simp
next
  case (Suc n)
  then show ?case by (metis less_Suc_eq)
qed


text \<open>
  Claim C5. The loop that writes the annotations makes at most 5 update attempts. It goes
  on to a further attempt only after a conflict whose re-fetch was answered: attempt
  \<open>i\<close> is reached when the \<open>i\<close> attempts before it met conflicts, after \<open>i\<close>
  re-fetches of the pod and the delays 100, 200, 400, 800 ms (the first \<open>i\<close> of them).
  An update that succeeds ends the loop with success; an error that is no conflict is
  returned at once, with no further attempt; so is the error of a re-fetch that fails;
  and after 5 conflicts the loop returns the error of the exhausted attempts, having
  re-fetched 5 times and slept the four delays.
\<close>

theorem updatePodAnnotationsWithRetry_retry:
  assumes run: "updatePodAnnotationsWithRetry api pod annotations = (res, pod', effs)"
  shows "length (updates effs) \<le> 5 \<and>
         (\<exists>n\<le>4. sleeps effs = take n [100, 200, 400, 800]) \<and>
         (\<forall>i<5. (\<forall>j<i. conflict_refetched api j) \<longrightarrow>
            (UpdateResp api i = None \<longrightarrow>
               res = None \<and> length (updates effs) = i + 1 \<and> length (refetches effs) = i \<and>
               sleeps effs = take i [100, 200, 400, 800]) \<and>
            (\<forall>err. UpdateResp api i = Some err \<and> \<not> IsConflict err \<longrightarrow>
               res = Some (Errorf ''failed to update pod annotations'' err) \<and>
               length (updates effs) = i + 1 \<and> length (refetches effs) = i \<and>
               sleeps effs = take i [100, 200, 400, 800]) \<and>
            (\<forall>err e'. UpdateResp api i = Some err \<and> IsConflict err \<and>
                 RefetchResp api i = Inl e' \<longrightarrow>
               res = Some (Errorf ''failed to re-fetch pod after conflict'' e') \<and>
               length (updates effs) = i + 1 \<and> length (refetches effs) = i + 1 \<and>
               sleeps effs = take i [100, 200, 400, 800])) \<and>
         ((\<forall>j<5. conflict_refetched api j) \<longrightarrow>
            res = Some (ErrConflictsExhausted 5) \<and> length (updates effs) = 5 \<and>
            length (refetches effs) = 5 \<and> sleeps effs = [100, 200, 400, 800])"
proof -
  note stop = retry_stops_at[OF run]
  note all = retry_exhausted[OF run]
  have bound: "length (updates effs) \<le> 5 \<and> (\<exists>n\<le>4. sleeps effs = take n [100, 200, 400, 800])"
  proof -
    from first_stop[of 5 "conflict_refetched api"]
    consider "\<forall>j<5. conflict_refetched api j"
      | i where "i < 5" "\<forall>j<i. conflict_refetched api j" "\<not> conflict_refetched api i"
      by blast
    then show ?thesis
    proof cases
      case 1
      from all[OF 1] have "length (updates effs) = 5" "sleeps effs = take 4 [100, 200, 400, 800]"
        by simp_all
      then show ?thesis by (metis order_refl)
    next
      case 2
      note s = stop[OF 2(1) 2(2)]
      have i4: "i \<le> 4" using 2(1) by simp
      from 2(3) consider "UpdateResp api i = None"
        | err where "UpdateResp api i = Some err" "\<not> IsConflict err"
        | err e' where "UpdateResp api i = Some err" "IsConflict err" "RefetchResp api i = Inl e'"
        by (auto simp: conflict_refetched_def split: option.splits sum.splits)
      then have "length (updates effs) = i + 1 \<and> sleeps effs = take i [100, 200, 400, 800]"
      proof cases
        case 1 with s show ?thesis by blast
      next
        case 2 with s show ?thesis by blast
      next
        case 3 with s show ?thesis by blast
      qed
      with 2(1) i4 show ?thesis by auto
    qed
  qed
  from bound stop all show ?thesis by blast
qed


theorem updatePodAnnotationsWithRetry_retry_witness:
  "fst (updatePodAnnotationsWithRetry api_two_conflicts pod0
          [(''designate.openstack.org/predictable-ip'', ''10.0.0.1'')]) = None \<and>
   length (updates (snd (snd (updatePodAnnotationsWithRetry api_two_conflicts pod0
          [(''designate.openstack.org/predictable-ip'', ''10.0.0.1'')])))) = 3 \<and>
   length (refetches (snd (snd (updatePodAnnotationsWithRetry api_two_conflicts pod0
          [(''designate.openstack.org/predictable-ip'', ''10.0.0.1'')])))) = 2 \<and>
   sleeps (snd (snd (updatePodAnnotationsWithRetry api_two_conflicts pod0
          [(''designate.openstack.org/predictable-ip'', ''10.0.0.1'')]))) = [100, 200]"
proof -
  obtain res pod' effs where run:
    "updatePodAnnotationsWithRetry api_two_conflicts pod0
       [(''designate.openstack.org/predictable-ip'', ''10.0.0.1'')] = (res, pod', effs)"
    by (metis prod_cases3)
  have before: "\<forall>j<2. conflict_refetched api_two_conflicts j"
    by (simp add: conflict_refetched_def api_two_conflicts_def)
  have ok: "UpdateResp api_two_conflicts 2 = None"
    by (simp add: api_two_conflicts_def)
  have two: "(2::nat) < 5" by simp
  from updatePodAnnotationsWithRetry_retry[OF run]
  have "\<forall>i<5. (\<forall>j<i. conflict_refetched api_two_conflicts j) \<longrightarrow>
          (UpdateResp api_two_conflicts i = None \<longrightarrow>
             res = None \<and> length (updates effs) = i + 1 \<and> length (refetches effs) = i \<and>
             sleeps effs = take i [100, 200, 400, 800])"
    by blast
  from this[rule_format, OF two before[rule_format] ok]
  have "res = None \<and> length (updates effs) = 3 \<and> length (refetches effs) = 2 \<and>
        sleeps effs = [100, 200]"
    by simp
  then show ?thesis by (simp add: run)
qed

section \<open>Properties of the release of an address\<close>

lemma find_value_None:
  "find (\<lambda>(k, v). v = ip) xs = None \<longleftrightarrow> ip \<notin> snd ` set xs"
  by (induction xs) auto

lemma find_value_Some:
  "ip \<in> snd ` set xs \<Longrightarrow> \<exists>key. find (\<lambda>(k, v). v = ip) xs = Some (key, ip) \<and> (key, ip) \<in> set xs"
  by (induction xs) auto

lemma delete_remove1:
  "distinct (map fst xs) \<Longrightarrow> (k, v) \<in> set xs \<Longrightarrow> AList.delete k xs = remove1 (k, v) xs"
proof (induction xs)
  case Nil then show ?case by simp
next
  case (Cons x xs)
  show ?case
  proof (cases "x = (k, v)")
    case True
    with Cons.prems have "k \<notin> fst ` set xs" by auto
    then have "AList.delete k xs = xs" by (simp add: delete_id)
    with True show ?thesis by simp
  next
    case False
    with Cons.prems have "(k, v) \<in> set xs" by auto
    then have "fst x \<noteq> k" using Cons.prems by (cases x) force
    with False Cons \<open>(k, v) \<in> set xs\<close> show ?thesis by (cases x) auto
  qed
qed

lemma Get_Inr: "Get c key = Inr cm \<Longrightarrow> configMaps c key = Some cm"
  by (auto simp: Get_def split: option.splits)

lemma ReleaseIP_unreadable: "Get c (ns m, setName m) = Inl err \<Longrightarrow> ReleaseIP m ip c = (Some err, c)"
  by (simp add: ReleaseIP_def)

lemma ReleaseIP_absent: "Get c (ns m, setName m) = Inr cm \<Longrightarrow> ip \<notin> snd ` set (Data cm) \<Longrightarrow> ReleaseIP m ip c = (None, c)"
  using find_value_None[of ip "Data cm"] by (simp add: ReleaseIP_def)

lemma ReleaseIP_present:
  assumes g: "Get c (ns m, setName m) = Inr cm"
    and f: "find (\<lambda>(k, v). v = ip) (Data cm) = Some (key, ip)"
    and nm: "Namespace cm = ns m" "Name cm = setName m"
  shows "ReleaseIP m ip c =
           (case writeFault c (ns m, setName m) of
              Some e \<Rightarrow> (Some e, c)
            | None \<Rightarrow>
                (None, c\<lparr>configMaps := (configMaps c)((ns m, setName m) \<mapsto>
                            cm\<lparr>Data := AList.delete key (Data cm)\<rparr>)\<rparr>))"
proof -
  from g have stored: "configMaps c (ns m, setName m) = Some cm" by (rule Get_Inr)
  have "ReleaseIP m ip c = Update c (cm\<lparr>Data := AList.delete key (Data cm)\<rparr>)"
    using g f by (simp add: ReleaseIP_def)
  also have "\<dots> = (case writeFault c (ns m, setName m) of
              Some e \<Rightarrow> (Some e, c)
            | None \<Rightarrow>
                (None, c\<lparr>configMaps := (configMaps c)((ns m, setName m) \<mapsto>
                            cm\<lparr>Data := AList.delete key (Data cm)\<rparr>)\<rparr>))"
    using stored nm by (simp add: Update_def Let_def split: option.splits)
  finally show ?thesis .
qed

text \<open>
  Claim C3, as the code has it. \<open>ReleaseIP\<close> always returns. When the record of the pool
  cannot be read, and so when it does not exist, it returns the error of the read and
  writes nothing. When the record is read: releasing an address that is not in the table
  returns success and writes nothing; releasing an address that is in the table removes
  exactly one entry, the first whose value is the address, and hands the rest of the
  table, unchanged, to the update, whose error it returns if the update fails.
\<close>

theorem ReleaseIP_effect:
  "(Get c (ns m, setName m) = Inl err \<longrightarrow> ReleaseIP m ip c = (Some err, c)) \<and>
   (Get c (ns m, setName m) = Inr cm \<and> ip \<notin> snd ` set (Data cm) \<longrightarrow>
      ReleaseIP m ip c = (None, c)) \<and>
   (Get c (ns m, setName m) = Inr cm \<and> ip \<in> snd ` set (Data cm) \<and>
    distinct (map fst (Data cm)) \<and> Namespace cm = ns m \<and> Name cm = setName m \<longrightarrow>
      (\<exists>key. find (\<lambda>(k, v). v = ip) (Data cm) = Some (key, ip) \<and>
         ReleaseIP m ip c =
           (case writeFault c (ns m, setName m) of
              Some e \<Rightarrow> (Some e, c)
            | None \<Rightarrow>
                (None, c\<lparr>configMaps := (configMaps c)((ns m, setName m) \<mapsto>
                            cm\<lparr>Data := remove1 (key, ip) (Data cm)\<rparr>)\<rparr>))))"
proof -
  have A: "Get c (ns m, setName m) = Inl err \<longrightarrow> ReleaseIP m ip c = (Some err, c)"
    by (rule impI) (rule ReleaseIP_unreadable)
  have B: "Get c (ns m, setName m) = Inr cm \<and> ip \<notin> snd ` set (Data cm) \<longrightarrow>
      ReleaseIP m ip c = (None, c)"
    by (rule impI, erule conjE) (rule ReleaseIP_absent)
  have C: "Get c (ns m, setName m) = Inr cm \<and> ip \<in> snd ` set (Data cm) \<and>
    distinct (map fst (Data cm)) \<and> Namespace cm = ns m \<and> Name cm = setName m \<longrightarrow>
      (\<exists>key. find (\<lambda>(k, v). v = ip) (Data cm) = Some (key, ip) \<and>
         ReleaseIP m ip c =
           (case writeFault c (ns m, setName m) of
              Some e \<Rightarrow> (Some e, c)
            | None \<Rightarrow>
                (None, c\<lparr>configMaps := (configMaps c)((ns m, setName m) \<mapsto>
                            cm\<lparr>Data := remove1 (key, ip) (Data cm)\<rparr>)\<rparr>)))"
  proof
    assume h: "Get c (ns m, setName m) = Inr cm \<and> ip \<in> snd ` set (Data cm) \<and>
      distinct (map fst (Data cm)) \<and> Namespace cm = ns m \<and> Name cm = setName m"
    note g = h[THEN conjunct1]
    note mem = h[THEN conjunct2, THEN conjunct1]
    note dk = h[THEN conjunct2, THEN conjunct2, THEN conjunct1]
    note nm = h[THEN conjunct2, THEN conjunct2, THEN conjunct2, THEN conjunct1]
      h[THEN conjunct2, THEN conjunct2, THEN conjunct2, THEN conjunct2]
    from find_value_Some[OF mem] obtain key where
      key: "find (\<lambda>(k, v). v = ip) (Data cm) = Some (key, ip)" "(key, ip) \<in> set (Data cm)"
      by (elim exE conjE)
    have del: "AList.delete key (Data cm) = remove1 (key, ip) (Data cm)"
      using dk key(2) by (rule delete_remove1)
    have R: "ReleaseIP m ip c =
           (case writeFault c (ns m, setName m) of
              Some e \<Rightarrow> (Some e, c)
            | None \<Rightarrow>
                (None, c\<lparr>configMaps := (configMaps c)((ns m, setName m) \<mapsto>
                            cm\<lparr>Data := remove1 (key, ip) (Data cm)\<rparr>)\<rparr>))"
      using ReleaseIP_present[OF g key(1) nm] unfolding del .
    show "\<exists>key.
         find (\<lambda>(k, v). v = ip) (Data cm) = Some (key, ip) \<and>
         ReleaseIP m ip c =
           (case writeFault c (ns m, setName m) of
              Some e \<Rightarrow> (Some e, c)
            | None \<Rightarrow>
                (None, c\<lparr>configMaps := (configMaps c)((ns m, setName m) \<mapsto>
                            cm\<lparr>Data := remove1 (key, ip) (Data cm)\<rparr>)\<rparr>))"
      by (rule exI[of _ key], rule conjI[OF key(1) R])
  qed
  show ?thesis by (rule conjI[OF A conjI[OF B C]])
qed

text \<open>
  Claim C3 as stated fails where the record of the pool does not exist: the release
  returns the error of the read, not success.
\<close>

theorem ReleaseIP_missing_record_counterexample:
  "configMaps empty_cluster (ns pool0, setName pool0) = None \<and>
   ReleaseIP pool0 ''10.0.0.1'' empty_cluster = (Some ErrNotFound, empty_cluster)"
  by (simp add: ReleaseIP_def Get_def empty_cluster_def)

theorem ReleaseIP_effect_witness:
  "ReleaseIP pool0 ''10.0.0.1'' empty_cluster = (Some ErrNotFound, empty_cluster) \<and>
   ReleaseIP pool0 ''10.0.0.9'' (pool_cluster [(''pod_0'', ''10.0.0.1''), (''pod_1'', ''10.0.0.2'')]) =
     (None, pool_cluster [(''pod_0'', ''10.0.0.1''), (''pod_1'', ''10.0.0.2'')]) \<and>
   ReleaseIP pool0 ''10.0.0.2'' (pool_cluster [(''pod_0'', ''10.0.0.1''), (''pod_1'', ''10.0.0.2'')]) =
     (None, pool_cluster [(''pod_0'', ''10.0.0.1'')])"
proof -
  let ?T = "[(''pod_0'', ''10.0.0.1''), (''pod_1'', ''10.0.0.2'')]"
  let ?c = "pool_cluster ?T"
  let ?cm = "pool_record pool0 ?T"
  have g0: "Get empty_cluster (ns pool0, setName pool0) = Inl ErrNotFound"
    by (simp add: Get_def empty_cluster_def)
  have g1: "Get ?c (ns pool0, setName pool0) = Inr ?cm"
    by (simp add: Get_def pool_cluster_def empty_cluster_def)
  have absent: "''10.0.0.9'' \<notin> snd ` set (Data ?cm)"
    by (simp add: pool_record_def)
  have present: "''10.0.0.2'' \<in> snd ` set (Data ?cm) \<and> distinct (map fst (Data ?cm)) \<and>
      Namespace ?cm = ns pool0 \<and> Name ?cm = setName pool0"
    by (simp add: pool_record_def)
  have a: "ReleaseIP pool0 ''10.0.0.1'' empty_cluster = (Some ErrNotFound, empty_cluster)"
    using ReleaseIP_effect[where c = empty_cluster and m = pool0 and err = ErrNotFound
        and ip = "''10.0.0.1''", THEN conjunct1] g0
    by (rule mp)
  have b: "ReleaseIP pool0 ''10.0.0.9'' ?c = (None, ?c)"
    using ReleaseIP_effect[where c = ?c and m = pool0 and cm = ?cm
        and ip = "''10.0.0.9''", THEN conjunct2, THEN conjunct1] conjI[OF g1 absent]
    by (rule mp)
  from ReleaseIP_effect[where c = ?c and m = pool0 and cm = ?cm
        and ip = "''10.0.0.2''", THEN conjunct2, THEN conjunct2, THEN mp, OF conjI[OF g1 present]]
  obtain key where key: "find (\<lambda>(k, v). v = ''10.0.0.2'') (Data ?cm) = Some (key, ''10.0.0.2'')"
    and rel: "ReleaseIP pool0 ''10.0.0.2'' ?c =
           (case writeFault ?c (ns pool0, setName pool0) of
              Some e \<Rightarrow> (Some e, ?c)
            | None \<Rightarrow>
                (None, ?c\<lparr>configMaps := (configMaps ?c)((ns pool0, setName pool0) \<mapsto>
                            ?cm\<lparr>Data := remove1 (key, ''10.0.0.2'') (Data ?cm)\<rparr>)\<rparr>))"
    by (elim exE conjE)
  from key have k: "key = ''pod_1''" by (simp add: pool_record_def)
  have c: "ReleaseIP pool0 ''10.0.0.2'' ?c = (None, pool_cluster [(''pod_0'', ''10.0.0.1'')])"
    unfolding rel k by (simp add: pool_cluster_def pool_record_def empty_cluster_def)
  show ?thesis by (rule conjI[OF a conjI[OF b c]])
qed

section \<open>Properties of the reconciliation of a deleted pod\<close>

lemma Reconcile_deleted_pod:
  assumes "FetchResp api = Inr pod" "isDesignatePod pod" "DeletionTimestamp pod \<noteq> None"
  shows "Reconcile ext res api req c =
     (case handlePodDeletion c pod of
        (r, c', effs) \<Rightarrow>
          Some (r, c', [LogInfo ''Reconciling Pod for predictable IP annotations'', GetPod req] @ effs))"
  using assms by (simp add: Reconcile_def Let_def)

lemma handlePodDeletion_no_release:
  assumes "map_get (Annotations pod) ''designate.openstack.org/predictable-ip'' = [] \<or>
           map_get (Annotations pod) ''designate.openstack.org/ipset-name'' = []"
  shows "handlePodDeletion c pod = ((Result_zero, None), c, [])"
  using assms by (auto simp: handlePodDeletion_def Let_def)

lemma handlePodDeletion_release:
  assumes "map_get (Annotations pod) ''designate.openstack.org/predictable-ip'' \<noteq> []"
          "map_get (Annotations pod) ''designate.openstack.org/ipset-name'' \<noteq> []"
  shows "handlePodDeletion c pod =
     (case ReleaseIP
             (NewIPSetManager (map_get (Annotations pod) ''designate.openstack.org/ipset-name'')
                ''openstack'')
             (map_get (Annotations pod) ''designate.openstack.org/predictable-ip'') c of
        (Some err, c') \<Rightarrow>
          ((Result_zero, None), c',
           [LogError err (''Failed to release IP '' @
              map_get (Annotations pod) ''designate.openstack.org/predictable-ip'' @
              '' from ipset ConfigMap '' @
              map_get (Annotations pod) ''designate.openstack.org/ipset-name'')])
      | (None, c') \<Rightarrow>
          ((Result_zero, None), c',
           [LogInfo (''Released IP '' @
              map_get (Annotations pod) ''designate.openstack.org/predictable-ip'' @
              '' from ipset ConfigMap '' @
              map_get (Annotations pod) ''designate.openstack.org/ipset-name'')]))"
  using assms by (simp add: handlePodDeletion_def Let_def)

text \<open>
  Claim C9. For a managed pod whose deletion is requested, the reconciliation returns
  success with no requeue, whatever the release does. When the pod lacks the
  predictable-ip annotation or the ipset-name annotation, nothing is released: the cluster
  is unchanged and nothing is logged beyond the opening line. Otherwise the address is
  released from the pool the annotation names; an error of the release is logged and goes
  no further.
\<close>

theorem Reconcile_deletion:
  assumes fetch: "FetchResp api = Inr pod"
    and managed: "isDesignatePod pod"
    and deleted: "DeletionTimestamp pod \<noteq> None"
  shows "\<exists>c' effs.
     Reconcile ext res api req c = Some ((Result_zero, None), c', effs) \<and>
     (map_get (Annotations pod) ''designate.openstack.org/predictable-ip'' = [] \<or>
      map_get (Annotations pod) ''designate.openstack.org/ipset-name'' = [] \<longrightarrow>
        c' = c \<and>
        effs = [LogInfo ''Reconciling Pod for predictable IP annotations'', GetPod req]) \<and>
     (map_get (Annotations pod) ''designate.openstack.org/predictable-ip'' \<noteq> [] \<and>
      map_get (Annotations pod) ''designate.openstack.org/ipset-name'' \<noteq> [] \<longrightarrow>
        (\<forall>err c''.
           ReleaseIP
             (NewIPSetManager (map_get (Annotations pod) ''designate.openstack.org/ipset-name'')
                ''openstack'')
             (map_get (Annotations pod) ''designate.openstack.org/predictable-ip'') c
             = (Some err, c'') \<longrightarrow>
           c' = c'' \<and>
           effs = [LogInfo ''Reconciling Pod for predictable IP annotations'', GetPod req,
                   LogError err (''Failed to release IP '' @
                     map_get (Annotations pod) ''designate.openstack.org/predictable-ip'' @
                     '' from ipset ConfigMap '' @
                     map_get (Annotations pod) ''designate.openstack.org/ipset-name'')]) \<and>
        (\<forall>c''.
           ReleaseIP
             (NewIPSetManager (map_get (Annotations pod) ''designate.openstack.org/ipset-name'')
                ''openstack'')
             (map_get (Annotations pod) ''designate.openstack.org/predictable-ip'') c
             = (None, c'') \<longrightarrow>
           c' = c'' \<and>
           effs = [LogInfo ''Reconciling Pod for predictable IP annotations'', GetPod req,
                   LogInfo (''Released IP '' @
                     map_get (Annotations pod) ''designate.openstack.org/predictable-ip'' @
                     '' from ipset ConfigMap '' @
                     map_get (Annotations pod) ''designate.openstack.org/ipset-name'')]))"
proof -
  define ip where "ip = map_get (Annotations pod) ''designate.openstack.org/predictable-ip''"
  define setn where "setn = map_get (Annotations pod) ''designate.openstack.org/ipset-name''"
  note R = Reconcile_deleted_pod[OF fetch managed deleted, of ext res req c]
  show ?thesis
  proof (cases "ip = [] \<or> setn = []")
    case True
    then have "handlePodDeletion c pod = ((Result_zero, None), c, [])"
      unfolding ip_def setn_def by (rule handlePodDeletion_no_release)
    with R have "Reconcile ext res api req c =
        Some ((Result_zero, None), c,
              [LogInfo ''Reconciling Pod for predictable IP annotations'', GetPod req])"
      by simp
    with True show ?thesis unfolding ip_def setn_def by auto
  next
    case False
    then have ne: "ip \<noteq> []" "setn \<noteq> []" by simp_all
    note H = handlePodDeletion_release[OF ne[unfolded ip_def setn_def], of c,
        folded ip_def setn_def]
    obtain r c1 where rel: "ReleaseIP (NewIPSetManager setn ''openstack'') ip c = (r, c1)"
      by (cases "ReleaseIP (NewIPSetManager setn ''openstack'') ip c") auto
    show ?thesis
    proof (cases r)
      case None
      with R H rel ne show ?thesis unfolding ip_def[symmetric] setn_def[symmetric] by simp
    next
      case (Some err)
      with R H rel ne show ?thesis unfolding ip_def[symmetric] setn_def[symmetric] by simp
    qed
  qed
qed

theorem Reconcile_deletion_witness:
  "Reconcile ext4 res0 (api_of deleted_pod) (''openstack'', ''designate-mdns-0'') empty_cluster =
     Some ((Result_zero, None), empty_cluster,
           [LogInfo ''Reconciling Pod for predictable IP annotations'',
            GetPod (''openstack'', ''designate-mdns-0''),
            LogError ErrNotFound
              ''Failed to release IP 10.0.0.1 from ipset ConfigMap designate-designate'']) \<and>
   Reconcile ext4 res0 (api_of (pod0\<lparr>DeletionTimestamp := Some 1\<rparr>))
       (''openstack'', ''designate-mdns-0'') empty_cluster =
     Some ((Result_zero, None), empty_cluster,
           [LogInfo ''Reconciling Pod for predictable IP annotations'',
            GetPod (''openstack'', ''designate-mdns-0'')])"
proof -
  let ?req = "(''openstack'', ''designate-mdns-0'')"
  let ?p2 = "pod0\<lparr>DeletionTimestamp := Some 1\<rparr>"
  have f1: "FetchResp (api_of deleted_pod) = Inr deleted_pod" by (simp add: api_of_def)
  have m1: "isDesignatePod deleted_pod" by code_simp
  have d1: "DeletionTimestamp deleted_pod \<noteq> None" by (simp add: deleted_pod_def)
  have a1: "map_get (Annotations deleted_pod) ''designate.openstack.org/predictable-ip'' = ''10.0.0.1''"
    and a2: "map_get (Annotations deleted_pod) ''designate.openstack.org/ipset-name'' =
          ''designate-designate''"
    by (simp_all add: deleted_pod_def map_get_def)
  have rel: "ReleaseIP (NewIPSetManager ''designate-designate'' ''openstack'') ''10.0.0.1''
      empty_cluster = (Some ErrNotFound, empty_cluster)"
    by (simp add: ReleaseIP_def Get_def empty_cluster_def NewIPSetManager_def)
  from Reconcile_deletion[OF f1 m1 d1, of ext4 res0 ?req empty_cluster]
  obtain c' effs where
    r1: "Reconcile ext4 res0 (api_of deleted_pod) ?req empty_cluster =
           Some ((Result_zero, None), c', effs)"
    and e1: "\<forall>err c''.
           ReleaseIP (NewIPSetManager ''designate-designate'' ''openstack'') ''10.0.0.1''
             empty_cluster = (Some err, c'') \<longrightarrow>
           c' = c'' \<and>
           effs = [LogInfo ''Reconciling Pod for predictable IP annotations'', GetPod ?req,
                   LogError err (''Failed to release IP '' @ ''10.0.0.1'' @
                     '' from ipset ConfigMap '' @ ''designate-designate'')]"
    unfolding a1 a2 by auto
  from e1[rule_format, OF rel] r1
  have w1: "Reconcile ext4 res0 (api_of deleted_pod) ?req empty_cluster =
     Some ((Result_zero, None), empty_cluster,
           [LogInfo ''Reconciling Pod for predictable IP annotations'', GetPod ?req,
            LogError ErrNotFound
              ''Failed to release IP 10.0.0.1 from ipset ConfigMap designate-designate''])"
    by simp
  have f2: "FetchResp (api_of ?p2) = Inr ?p2" by (simp add: api_of_def)
  have m2: "isDesignatePod ?p2" by code_simp
  have d2: "DeletionTimestamp ?p2 \<noteq> None" by simp
  have n2: "map_get (Annotations ?p2) ''designate.openstack.org/predictable-ip'' = []"
    by (simp add: pod0_def map_get_def)
  from Reconcile_deletion[OF f2 m2 d2, of ext4 res0 ?req empty_cluster] n2
  have w2: "Reconcile ext4 res0 (api_of ?p2) ?req empty_cluster =
     Some ((Result_zero, None), empty_cluster,
           [LogInfo ''Reconciling Pod for predictable IP annotations'', GetPod ?req])"
    by auto
  show ?thesis by (rule conjI[OF w1 w2])
qed

section \<open>Properties of the allocation\<close>

lemma GetNextIP_from_not_excluded:
  assumes "GetNextIP_from nxt str e excl ip = Some (Inr s)"
  shows "s \<notin> excl"
proof -
  have "\<forall>s. y = Inr s \<longrightarrow> s \<notin> excl" if run: "GetNextIP_from nxt str e excl ip = Some y" for y
    by (rule GetNextIP_from.raw_induct[where P =
          "\<lambda>nxt str e excl ip y. \<forall>s. y = Inr s \<longrightarrow> s \<notin> excl", rotated 1, OF run])
       (auto split: if_splits)
  with assms show ?thesis by simp
qed

lemma GetNextIP_not_excluded:
  "GetNextIP ext p excl = Some (Inr s) \<Longrightarrow> s \<notin> excl"
  unfolding GetNextIP_def by (rule GetNextIP_from_not_excluded)

lemma scan_single:
  "scan_holders D [k] [] [] =
     (case map_of D k of Some a \<Rightarrow> ([(k, a)], []) | None \<Rightarrow> ([], [k]))"
  by (simp split: option.splits)

lemma allocate_single:
  "allocatePredictableIPs ext p [k] D excl =
     (case map_of D k of
        Some a \<Rightarrow> Some (Inr ([(k, a)], excl))
      | None \<Rightarrow>
          (case GetNextIP ext p excl of
             None \<Rightarrow> None
           | Some (Inl e) \<Rightarrow> Some (Inl e)
           | Some (Inr a) \<Rightarrow> Some (Inr ([(k, a)], excl))))"
  by (simp add: allocatePredictableIPs_def scan_single split: option.splits sum.splits)


lemma handleConfigMap_read:
  "handleConfigMap c m (setName m) ipset_labels =
     (case read_table c m of Inl err \<Rightarrow> Inl err | Inr D \<Rightarrow> Inr (pool_record m D))"
  by (simp add: handleConfigMap_def read_table_def pool_record_def Let_def split: sum.splits)

lemma relabel_fixed: "(cm\<lparr>Labels := l\<rparr> = cm) = (Labels cm = l)" for cm :: ConfigMap
  by (cases cm) auto

lemma CreateOrPatch_pool:
  "CreateOrPatch c (pool_record m U) (Labels_update (\<lambda>_. ipset_labels)) =
     (case Get c (ns m, setName m) of
        Inl err \<Rightarrow> if \<not> IsNotFound err then (Some err, c) else Create c (pool_record m U)
      | Inr stored \<Rightarrow>
          if (Namespace stored, Name stored) \<noteq> (ns m, setName m)
          then (Some (ErrOther ''MutateFn cannot mutate object name and/or object namespace''), c)
          else if Labels stored = ipset_labels then (None, c)
          else Patch c (stored\<lparr>Labels := ipset_labels\<rparr>))"
proof (cases "Get c (ns m, setName m)")
  case (Inl err)
  then show ?thesis by (simp add: CreateOrPatch_def pool_record_def Let_def)
next
  case (Inr stored)
  then show ?thesis
    by (simp add: CreateOrPatch_def pool_record_def Let_def relabel_fixed)
qed

lemma Create_pool:
  "Create c (pool_record m U) =
     (case writeFault c (ns m, setName m) of
        Some err \<Rightarrow> (Some err, c)
      | None \<Rightarrow>
          (case configMaps c (ns m, setName m) of
             Some _ \<Rightarrow> (Some ErrAlreadyExists, c)
           | None \<Rightarrow>
               (None, c\<lparr>configMaps := (configMaps c)((ns m, setName m) \<mapsto> pool_record m U)\<rparr>)))"
  by (simp add: Create_def pool_record_def Let_def split: option.splits)

lemma Get_Inr_stored: "Get c key = Inr cm \<Longrightarrow> configMaps c key = Some cm"
  by (auto simp: Get_def split: option.splits)

lemma Patch_relabel:
  assumes "Get c (ns m, setName m) = Inr stored"
    and "Namespace stored = ns m" "Name stored = setName m"
  shows "Patch c (stored\<lparr>Labels := ipset_labels\<rparr>) =
     (case writeFault c (ns m, setName m) of
        Some err \<Rightarrow> (Some err, c)
      | None \<Rightarrow>
          (None, c\<lparr>configMaps := (configMaps c)((ns m, setName m) \<mapsto>
                    stored\<lparr>Labels := ipset_labels\<rparr>)\<rparr>))"
proof -
  from assms(1) have "configMaps c (ns m, setName m) = Some stored" by (rule Get_Inr_stored)
  with assms(2,3) show ?thesis
    by (simp add: Patch_def Let_def split: option.splits)
qed

lemma AllocateIP_unfold:
  "AllocateIP ext m r i c =
     (case GetPredictableIPAM ext (NetworkParameters r) of
        Inl err \<Rightarrow> Some (Inl (Errorf ''failed to get predictable IP parameters'' err), c)
      | Inr p \<Rightarrow>
          (case read_table c m of
             Inl err \<Rightarrow> Some (Inl (Errorf ''failed to handle ConfigMap'' err), c)
           | Inr D \<Rightarrow>
               (case (case map_of D (''pod_'' @ fmt_d i) of
                        Some a \<Rightarrow> Some (Inr a)
                      | None \<Rightarrow> GetNextIP ext p (excluded_addresses ext m c)) of
                  None \<Rightarrow> None
                | Some (Inl err) \<Rightarrow>
                    Some (Inl (Errorf ''failed to allocate predictable IPs'' err), c)
                | Some (Inr a) \<Rightarrow>
                    (case CreateOrPatch c (pool_record m [(''pod_'' @ fmt_d i, a)])
                            (Labels_update (\<lambda>_. ipset_labels)) of
                       (Some err, c') \<Rightarrow>
                         Some (Inl (Errorf ''failed to create or patch ConfigMap'' err), c')
                     | (None, c') \<Rightarrow> Some (Inr a, c')))))"
proof -
  define k where "k = ''pod_'' @ fmt_d i"
  have D: "\<And>D. Data (pool_record m D) = D" by (simp add: pool_record_def)
  have U: "\<And>D U. (pool_record m D)\<lparr>Data := U\<rparr> = pool_record m U" by (simp add: pool_record_def)
  show ?thesis
  proof (cases "GetPredictableIPAM ext (NetworkParameters r)")
    case (Inl err)
    then show ?thesis by (simp add: AllocateIP_def)
  next
    case p: (Inr p)
    show ?thesis
    proof (cases "read_table c m")
      case (Inl err)
      with p show ?thesis by (simp add: AllocateIP_def handleConfigMap_read)
    next
      case t: (Inr T)
      show ?thesis
      proof (cases "map_of T k")
        case (Some a)
        with p t show ?thesis
          unfolding AllocateIP_def Let_def handleConfigMap_read allocate_single
            excluded_addresses_def[symmetric] k_def[symmetric]
          by (simp add: D U split: prod.splits option.splits)
      next
        case None
        show ?thesis
        proof (cases "GetNextIP ext p (excluded_addresses ext m c)")
          case n: None
          with p t None show ?thesis
            unfolding AllocateIP_def Let_def handleConfigMap_read allocate_single
              excluded_addresses_def[symmetric] k_def[symmetric]
            by (simp add: D)
        next
          case s: (Some res)
          show ?thesis
          proof (cases res)
            case (Inl err)
            with p t None s show ?thesis
              unfolding AllocateIP_def Let_def handleConfigMap_read allocate_single
                excluded_addresses_def[symmetric] k_def[symmetric]
              by (simp add: D)
          next
            case (Inr a)
            with p t None s show ?thesis
              unfolding AllocateIP_def Let_def handleConfigMap_read allocate_single
                excluded_addresses_def[symmetric] k_def[symmetric]
              by (simp add: D U split: prod.splits option.splits)
          qed
        qed
      qed
    qed
  qed
qed

lemma AllocateIP_success:
  assumes run: "AllocateIP ext m r i c = Some (Inr ip, c')"
  obtains (created) p err where
      "GetPredictableIPAM ext (NetworkParameters r) = Inr p"
      "Get c (ns m, setName m) = Inl err" "IsNotFound err"
      "GetNextIP ext p (excluded_addresses ext m c) = Some (Inr ip)"
      "writeFault c (ns m, setName m) = None"
      "configMaps c (ns m, setName m) = None"
      "c' = c\<lparr>configMaps := (configMaps c)((ns m, setName m) \<mapsto>
                pool_record m [(''pod_'' @ fmt_d i, ip)])\<rparr>"
  | (kept) p own where
      "GetPredictableIPAM ext (NetworkParameters r) = Inr p"
      "Get c (ns m, setName m) = Inr own"
      "map_of (Data own) (''pod_'' @ fmt_d i) = Some ip \<or>
       map_of (Data own) (''pod_'' @ fmt_d i) = None \<and>
       GetNextIP ext p (excluded_addresses ext m c) = Some (Inr ip)"
      "Namespace own = ns m" "Name own = setName m"
      "Labels own = ipset_labels"
      "c' = c"
  | (relabelled) p own where
      "GetPredictableIPAM ext (NetworkParameters r) = Inr p"
      "Get c (ns m, setName m) = Inr own"
      "map_of (Data own) (''pod_'' @ fmt_d i) = Some ip \<or>
       map_of (Data own) (''pod_'' @ fmt_d i) = None \<and>
       GetNextIP ext p (excluded_addresses ext m c) = Some (Inr ip)"
      "Namespace own = ns m" "Name own = setName m"
      "Labels own \<noteq> ipset_labels"
      "writeFault c (ns m, setName m) = None"
      "c' = c\<lparr>configMaps := (configMaps c)((ns m, setName m) \<mapsto>
                own\<lparr>Labels := ipset_labels\<rparr>)\<rparr>"
proof -
  define k where "k = ''pod_'' @ fmt_d i"
  define key where "key = (ns m, setName m)"
  note U = AllocateIP_unfold[of ext m r i c, folded k_def]
  from run U obtain p where p: "GetPredictableIPAM ext (NetworkParameters r) = Inr p"
    by (cases "GetPredictableIPAM ext (NetworkParameters r)") auto
  from run U p obtain T where T: "read_table c m = Inr T"
    by (cases "read_table c m") auto
  define pick where "pick = (case map_of T k of
                        Some a \<Rightarrow> Some (Inr a)
                      | None \<Rightarrow> GetNextIP ext p (excluded_addresses ext m c))"
  from run U p T have run': "(case pick of
                  None \<Rightarrow> None
                | Some (Inl err) \<Rightarrow>
                    Some (Inl (Errorf ''failed to allocate predictable IPs'' err), c)
                | Some (Inr a) \<Rightarrow>
                    (case CreateOrPatch c (pool_record m [(k, a)])
                            (Labels_update (\<lambda>_. ipset_labels)) of
                       (Some err, c') \<Rightarrow>
                         Some (Inl (Errorf ''failed to create or patch ConfigMap'' err), c')
                     | (None, c') \<Rightarrow> Some (Inr a, c'))) = Some (Inr ip, c')"
    by (simp add: pick_def)
  then obtain a where a: "pick = Some (Inr a)"
    by (cases pick) (auto split: sum.splits)
  from run' a have w: "CreateOrPatch c (pool_record m [(k, ip)])
        (Labels_update (\<lambda>_. ipset_labels)) = (None, c')" and eq: "a = ip"
    by (auto split: prod.splits option.splits)
  from a eq have pick': "map_of T k = Some ip \<or>
     map_of T k = None \<and> GetNextIP ext p (excluded_addresses ext m c) = Some (Inr ip)"
    by (cases "map_of T k") (auto simp: pick_def)
  note W = w[unfolded CreateOrPatch_pool, folded key_def]
  show ?thesis
  proof (cases "Get c key")
    case (Inl err)
    with T have nf: "IsNotFound err" and Tnil: "T = []"
      by (auto simp: read_table_def key_def split: if_splits)
    from pick' Tnil have nxt: "GetNextIP ext p (excluded_addresses ext m c) = Some (Inr ip)"
      by simp
    from W Inl nf have cr: "Create c (pool_record m [(k, ip)]) = (None, c')" by simp
    note cr' = cr[unfolded Create_pool, folded key_def]
    from cr' have wf: "writeFault c key = None"
      by (cases "writeFault c key") auto
    from cr' wf have absent: "configMaps c key = None"
      by (cases "configMaps c key") auto
    from cr' wf absent have c': "c' = c\<lparr>configMaps := (configMaps c)(key \<mapsto> pool_record m [(k, ip)])\<rparr>"
      by simp
    show ?thesis
      by (rule created[OF p Inl[unfolded key_def] nf nxt wf[unfolded key_def]
            absent[unfolded key_def] c'[unfolded key_def k_def]])
  next
    case (Inr own)
    with T have Town: "T = Data own" by (simp add: read_table_def key_def)
    note pick'' = pick'[unfolded Town k_def]
    from W Inr have named: "(Namespace own, Name own) = key"
      by (cases "(Namespace own, Name own) = key") auto
    then have n1: "Namespace own = ns m" and n2: "Name own = setName m"
      by (simp_all add: key_def)
    show ?thesis
    proof (cases "Labels own = ipset_labels")
      case True
      with W Inr named have "c' = c" by simp
      then show ?thesis
        by (rule kept[OF p Inr[unfolded key_def] pick'' n1 n2 True])
    next
      case False
      with W Inr named have pt: "Patch c (own\<lparr>Labels := ipset_labels\<rparr>) = (None, c')" by simp
      note pt' = pt[unfolded Patch_relabel[OF Inr[unfolded key_def] n1 n2], folded key_def]
      from pt' have wf: "writeFault c key = None"
        by (cases "writeFault c key") auto
      from pt' wf have c': "c' = c\<lparr>configMaps := (configMaps c)(key \<mapsto> own\<lparr>Labels := ipset_labels\<rparr>)\<rparr>"
        by simp
      show ?thesis
        by (rule relabelled[OF p Inr[unfolded key_def] pick'' n1 n2 False wf[unfolded key_def]
              c'[unfolded key_def]])
    qed
  qed
qed

lemma Get_Inr_fault: "Get c key = Inr cm \<Longrightarrow> getFault c key = None"
  by (auto simp: Get_def split: option.splits)

lemma stored_table_Get: "Get c (ns m, setName m) = Inr own \<Longrightarrow> stored_table c m = Data own"
  by (simp add: stored_table_def Get_Inr_stored)

lemma stored_table_write:
  "stored_table (c\<lparr>configMaps := (configMaps c)((ns m, setName m) \<mapsto> cm)\<rparr>) m = Data cm"
  by (simp add: stored_table_def)


lemma AllocateIP_reads:
  assumes run: "AllocateIP ext m r i c = Some (Inr ip, c')"
  obtains p T where "read_table c m = Inr T"
    "map_of T (''pod_'' @ fmt_d i) = Some ip \<or>
     map_of T (''pod_'' @ fmt_d i) = None \<and>
     GetNextIP ext p (excluded_addresses ext m c) = Some (Inr ip)"
  using run
proof (cases rule: AllocateIP_success)
  case (created p err)
  from created(2,3) have "read_table c m = Inr []" by (simp add: read_table_def)
  moreover from created(4) have "map_of [] (''pod_'' @ fmt_d i) = Some ip \<or>
     map_of [] (''pod_'' @ fmt_d i) = None \<and>
     GetNextIP ext p (excluded_addresses ext m c) = Some (Inr ip)" by simp
  ultimately show ?thesis by (rule that)
next
  case (kept p own)
  from kept(2) have "read_table c m = Inr (Data own)" by (simp add: read_table_def)
  then show ?thesis using kept(3) by (rule that)
next
  case (relabelled p own)
  from relabelled(2) have "read_table c m = Inr (Data own)" by (simp add: read_table_def)
  then show ?thesis using relabelled(3) by (rule that)
qed

lemma read_table_Get:
  "read_table c m = Inr T \<Longrightarrow>
   (\<forall>own. Get c (ns m, setName m) = Inr own \<longrightarrow> map_of (Data own) k = None) \<Longrightarrow>
   map_of T k = None"
  by (cases "Get c (ns m, setName m)") (auto simp: read_table_def split: if_splits)

lemma sibling_member:
  "Get c key = Inr cm \<Longrightarrow> X \<in> snd ` set (Data cm) \<Longrightarrow> X \<in> sibling_values c key"
  by (simp add: sibling_values_def)

text \<open>
  Claim C4. Take an allocation for a holder key that is not in the table of its own pool,
  and an address \<open>X\<close> that is a value of the record of a sibling pool as the allocation
  reads it (the bind pool or the mdns pool of the same namespace). If the allocation
  returns an address, it is not \<open>X\<close>.
\<close>

theorem AllocateIP_excludes_siblings:
  assumes run: "AllocateIP ext m ipRange podIndex c = Some (Inr ip, c')"
    and fresh: "\<forall>own. Get c (ns m, setName m) = Inr own \<longrightarrow>
                  map_of (Data own) (''pod_'' @ fmt_d podIndex) = None"
    and sibling: "sibling = BindPredIPConfigMap ext \<or> sibling = MdnsPredIPConfigMap ext"
    and stored: "Get c (ns m, sibling) = Inr cm"
    and member: "X \<in> snd ` set (Data cm)"
  shows "ip \<noteq> X"
proof -
  from run obtain p T where T: "read_table c m = Inr T"
    and pick: "map_of T (''pod_'' @ fmt_d podIndex) = Some ip \<or>
       map_of T (''pod_'' @ fmt_d podIndex) = None \<and>
       GetNextIP ext p (excluded_addresses ext m c) = Some (Inr ip)"
    by (rule AllocateIP_reads)
  from read_table_Get[OF T fresh] pick
  have "GetNextIP ext p (excluded_addresses ext m c) = Some (Inr ip)" by simp
  then have "ip \<notin> excluded_addresses ext m c" by (rule GetNextIP_not_excluded)
  moreover from sibling_member[OF stored member] sibling
  have "X \<in> excluded_addresses ext m c" by (auto simp: excluded_addresses_def)
  ultimately show ?thesis by auto
qed

lemma GetNextIP_skips_one:
  "GetNextIP ext4 \<lparr>CIDR = cidr, RangeStart = IPv4 10 0 0 1, RangeEnd = IPv4 10 0 0 5\<rparr>
     {''10.0.0.1''} = Some (Inr ''10.0.0.2'')"
  by (simp add: GetNextIP_def GetNextIP_from.simps ext4_def digit_char_def)

lemma GetNextIP_first:
  "GetNextIP ext4 \<lparr>CIDR = cidr, RangeStart = IPv4 10 0 0 1, RangeEnd = IPv4 10 0 0 5\<rparr>
     {} = Some (Inr ''10.0.0.1'')"
  by (simp add: GetNextIP_def GetNextIP_from.simps ext4_def digit_char_def)

lemma ext4_ipam:
  "GetPredictableIPAM ext4 (NetworkParameters cidr) =
     Inr \<lparr>CIDR = cidr, RangeStart = IPv4 10 0 0 1, RangeEnd = IPv4 10 0 0 5\<rparr>"
  "BindPredIPConfigMap ext4 = ''designate-bind-ip-map''"
  "MdnsPredIPConfigMap ext4 = ''designate-mdns-ip-map''"
  by (simp_all add: ext4_def)

lemma pool0_names: "ns pool0 = ''openstack''" "setName pool0 = ''designate-designate''"
  by (simp_all add: pool0_def NewIPSetManager_def)

theorem AllocateIP_excludes_siblings_witness:
  "map_option fst
     (AllocateIP ext4 pool0 ''10.0.0.0/24'' 0
        (with_bind_pool [(''bind_address_0'', ''10.0.0.1'')] empty_cluster)) =
     Some (Inr ''10.0.0.2'') \<and>
   ''10.0.0.2'' \<noteq> ''10.0.0.1''"
proof -
  let ?c = "with_bind_pool [(''bind_address_0'', ''10.0.0.1'')] empty_cluster"
  let ?cm = "pool_record (NewIPSetManager ''designate-bind-ip-map'' ''openstack'')
               [(''bind_address_0'', ''10.0.0.1'')]"
  have tbl: "read_table ?c pool0 = Inr []"
    by (simp add: read_table_def Get_def with_bind_pool_def empty_cluster_def pool0_names)
  have excl: "excluded_addresses ext4 pool0 ?c = {''10.0.0.1''}"
    by (simp add: excluded_addresses_def sibling_values_def Get_def with_bind_pool_def
        empty_cluster_def pool0_names ext4_ipam pool_record_def)
  have own: "Get ?c (ns pool0, setName pool0) = Inl ErrNotFound"
    by (simp add: Get_def with_bind_pool_def empty_cluster_def pool0_names)
  have wf: "writeFault ?c (ns pool0, setName pool0) = None"
    by (simp add: with_bind_pool_def empty_cluster_def)
  have absent: "configMaps ?c (ns pool0, setName pool0) = None"
    by (simp add: with_bind_pool_def empty_cluster_def pool0_names)
  have res: "map_option fst (AllocateIP ext4 pool0 ''10.0.0.0/24'' 0 ?c) = Some (Inr ''10.0.0.2'')"
    unfolding AllocateIP_unfold ext4_ipam tbl excl CreateOrPatch_pool Create_pool own wf absent
    by (simp add: GetNextIP_skips_one del: One_nat_def)
  then obtain c' where run: "AllocateIP ext4 pool0 ''10.0.0.0/24'' 0 ?c = Some (Inr ''10.0.0.2'', c')"
    by (cases "AllocateIP ext4 pool0 ''10.0.0.0/24'' 0 ?c") auto
  have fresh: "\<forall>own. Get ?c (ns pool0, setName pool0) = Inr own \<longrightarrow>
                  map_of (Data own) (''pod_'' @ fmt_d 0) = None"
    by (simp add: own)
  have sibling: "''designate-bind-ip-map'' = BindPredIPConfigMap ext4 \<or>
                 ''designate-bind-ip-map'' = MdnsPredIPConfigMap ext4"
    by (simp add: ext4_def)
  have stored: "Get ?c (ns pool0, ''designate-bind-ip-map'') = Inr ?cm"
    by (simp add: Get_def with_bind_pool_def empty_cluster_def pool0_names)
  have member: "''10.0.0.1'' \<in> snd ` set (Data ?cm)"
    by (simp add: pool_record_def)
  from AllocateIP_excludes_siblings[OF run fresh sibling stored member]
  have "''10.0.0.2'' \<noteq> ''10.0.0.1''" .
  with res show ?thesis by (rule conjI)
qed

lemma Get_after_write:
  "Get (c\<lparr>configMaps := (configMaps c)(key \<mapsto> rec)\<rparr>) key' =
     (if key' = key then (case getFault c key of Some e \<Rightarrow> Inl e | None \<Rightarrow> Inr rec)
      else Get c key')"
  by (simp add: Get_def split: option.splits)

lemma sibling_values_relabel:
  assumes "Get c key = Inr own"
  shows "sibling_values (c\<lparr>configMaps := (configMaps c)(key \<mapsto> own\<lparr>Labels := l\<rparr>)\<rparr>) key' =
         sibling_values c key'"
proof (cases "key' = key")
  case True
  from assms have "getFault c key = None" by (rule Get_Inr_fault)
  with assms True show ?thesis by (simp add: sibling_values_def Get_after_write)
next
  case False
  then show ?thesis by (simp add: sibling_values_def Get_after_write)
qed

lemma excluded_relabel:
  "Get c key = Inr own \<Longrightarrow>
   excluded_addresses ext m (c\<lparr>configMaps := (configMaps c)(key \<mapsto> own\<lparr>Labels := l\<rparr>)\<rparr>) =
   excluded_addresses ext m c"
  by (simp add: excluded_addresses_def sibling_values_relabel)

text \<open>A call on a pool whose record already carries the labels of the pool writes
  nothing: it returns the address of the table, or the address of the walk for a holder
  that is not in the table.\<close>

lemma AllocateIP_settled:
  assumes p: "GetPredictableIPAM ext (NetworkParameters r) = Inr p"
    and own: "Get c (ns m, setName m) = Inr own"
    and pick: "map_of (Data own) (''pod_'' @ fmt_d i) = Some A \<or>
       map_of (Data own) (''pod_'' @ fmt_d i) = None \<and>
       GetNextIP ext p (excluded_addresses ext m c) = Some (Inr A)"
    and named: "Namespace own = ns m" "Name own = setName m"
    and labelled: "Labels own = ipset_labels"
  shows "AllocateIP ext m r i c = Some (Inr A, c)"
proof -
  define k where "k = ''pod_'' @ fmt_d i"
  from own have T: "read_table c m = Inr (Data own)" by (simp add: read_table_def)
  have W: "\<And>U. CreateOrPatch c (pool_record m U) (Labels_update (\<lambda>_. ipset_labels)) = (None, c)"
    unfolding CreateOrPatch_pool own using named labelled by simp
  from pick[folded k_def] show ?thesis
  proof
    assume "map_of (Data own) k = Some A"
    then show ?thesis unfolding AllocateIP_unfold p T k_def[symmetric] W by simp
  next
    assume "map_of (Data own) k = None \<and>
       GetNextIP ext p (excluded_addresses ext m c) = Some (Inr A)"
    then show ?thesis unfolding AllocateIP_unfold p T k_def[symmetric] W by simp
  qed
qed

lemma AllocateIP_again:
  assumes readable: "getFault c (ns m, setName m) = None"
    and run: "AllocateIP ext m r i c = Some (Inr A, c')"
  shows "AllocateIP ext m r i c' = Some (Inr A, c')"
  using run
proof (cases rule: AllocateIP_success)
  case (created p err)
  have own: "Get c' (ns m, setName m) = Inr (pool_record m [(''pod_'' @ fmt_d i, A)])"
    unfolding created(7) using readable by (simp add: Get_after_write)
  have pick: "map_of (Data (pool_record m [(''pod_'' @ fmt_d i, A)])) (''pod_'' @ fmt_d i) = Some A \<or>
       map_of (Data (pool_record m [(''pod_'' @ fmt_d i, A)])) (''pod_'' @ fmt_d i) = None \<and>
       GetNextIP ext p (excluded_addresses ext m c') = Some (Inr A)"
    by (simp add: pool_record_def)
  show ?thesis
    by (rule AllocateIP_settled[OF created(1) own pick]) (simp_all add: pool_record_def)
next
  case (kept p own)
  with run show ?thesis by simp
next
  case (relabelled p own)
  from relabelled(2) have gf: "getFault c (ns m, setName m) = None" by (rule Get_Inr_fault)
  have own': "Get c' (ns m, setName m) = Inr (own\<lparr>Labels := ipset_labels\<rparr>)"
    unfolding relabelled(8) using gf by (simp add: Get_after_write)
  have ex: "excluded_addresses ext m c' = excluded_addresses ext m c"
    unfolding relabelled(8) using relabelled(2) by (rule excluded_relabel)
  have pick: "map_of (Data (own\<lparr>Labels := ipset_labels\<rparr>)) (''pod_'' @ fmt_d i) = Some A \<or>
       map_of (Data (own\<lparr>Labels := ipset_labels\<rparr>)) (''pod_'' @ fmt_d i) = None \<and>
       GetNextIP ext p (excluded_addresses ext m c') = Some (Inr A)"
    using relabelled(3) unfolding ex by simp
  show ?thesis
    by (rule AllocateIP_settled[OF relabelled(1) own' pick]) (simp_all add: relabelled(4,5))
qed

lemma AllocateIP_held:
  assumes own: "Get c (ns m, setName m) = Inr own"
    and held: "map_of (Data own) (''pod_'' @ fmt_d i) = Some A"
  shows "\<exists>res c''. AllocateIP ext m r i c = Some (res, c'') \<and>
           (\<forall>ip. res = Inr ip \<longrightarrow> ip = A) \<and>
           stored_table c'' m = stored_table c m \<and>
           (Labels own = ipset_labels \<longrightarrow> c'' = c) \<and>
           ((\<exists>p. GetPredictableIPAM ext (NetworkParameters r) = Inr p) \<and>
            Namespace own = ns m \<and> Name own = setName m \<and>
            (Labels own = ipset_labels \<or> writeFault c (ns m, setName m) = None) \<longrightarrow>
              res = Inr A)"
proof -
  define k where "k = ''pod_'' @ fmt_d i"
  define key where "key = (ns m, setName m)"
  note held' = held[folded k_def]
  note own' = own[folded key_def]
  from own have T: "read_table c m = Inr (Data own)" by (simp add: read_table_def)
  from own have st: "stored_table c m = Data own" by (rule stored_table_Get)
  show ?thesis
  proof (cases "GetPredictableIPAM ext (NetworkParameters r)")
    case (Inl err)
    then show ?thesis unfolding AllocateIP_unfold by simp
  next
    case (Inr p)
    note U = AllocateIP_unfold[of ext m r i c, unfolded Inr T k_def[symmetric] CreateOrPatch_pool own,
        folded key_def]
    show ?thesis
    proof (cases "(Namespace own, Name own) = key")
      case False
      then have n: "\<not> (Namespace own = ns m \<and> Name own = setName m)" by (simp add: key_def)
      from False have "AllocateIP ext m r i c =
          Some (Inl (Errorf ''failed to create or patch ConfigMap''
            (ErrOther ''MutateFn cannot mutate object name and/or object namespace'')), c)"
        unfolding U by (simp add: held')
      with n show ?thesis by auto
    next
      case named: True
      then have n1: "Namespace own = ns m" and n2: "Name own = setName m"
        by (simp_all add: key_def)
      show ?thesis
      proof (cases "Labels own = ipset_labels")
        case True
        with named have "AllocateIP ext m r i c = Some (Inr A, c)"
          unfolding U by (simp add: held')
        then show ?thesis by simp
      next
        case False
        note P = Patch_relabel[OF own n1 n2, folded key_def]
        show ?thesis
        proof (cases "writeFault c key")
          case None
          with named False have "AllocateIP ext m r i c =
              Some (Inr A, c\<lparr>configMaps := (configMaps c)(key \<mapsto> own\<lparr>Labels := ipset_labels\<rparr>)\<rparr>)"
            unfolding U by (simp add: held' P)
          moreover have "stored_table (c\<lparr>configMaps := (configMaps c)(key \<mapsto> own\<lparr>Labels := ipset_labels\<rparr>)\<rparr>) m
              = stored_table c m"
            unfolding st key_def stored_table_write by simp
          ultimately show ?thesis using False by simp
        next
          case (Some err)
          with named False have "AllocateIP ext m r i c =
              Some (Inl (Errorf ''failed to create or patch ConfigMap'' err), c)"
            unfolding U by (simp add: held' P)
          with False Some show ?thesis by (simp add: key_def)
        qed
      qed
    qed
  qed
qed

text \<open>
  Claim C6. A call of \<open>AllocateIP\<close> that returned address \<open>A\<close> for a holder key on
  a cluster whose pool record reads without a failure, repeated on the cluster it left,
  returns \<open>A\<close> again and leaves that cluster as it is. And in every state of the pool in
  which the holder key maps to \<open>A\<close>, the call returns, it returns no address other than
  \<open>A\<close>, the persisted table of the pool after it is the table before it, the cluster
  itself is unchanged when the record already carries the labels of the pool, and the
  call returns \<open>A\<close> when its network parameters resolve, the record is stored under its
  own name, and the write of the labels, where one is needed, succeeds.
\<close>

theorem AllocateIP_idempotent:
  "(getFault c (ns m, setName m) = None \<and> AllocateIP ext m r i c = Some (Inr A, c') \<longrightarrow>
      AllocateIP ext m r i c' = Some (Inr A, c')) \<and>
   (Get c (ns m, setName m) = Inr own \<and> map_of (Data own) (''pod_'' @ fmt_d i) = Some A \<longrightarrow>
      (\<exists>res c''. AllocateIP ext m r i c = Some (res, c'') \<and>
           (\<forall>ip. res = Inr ip \<longrightarrow> ip = A) \<and>
           stored_table c'' m = stored_table c m \<and>
           (Labels own = ipset_labels \<longrightarrow> c'' = c) \<and>
           ((\<exists>p. GetPredictableIPAM ext (NetworkParameters r) = Inr p) \<and>
            Namespace own = ns m \<and> Name own = setName m \<and>
            (Labels own = ipset_labels \<or> writeFault c (ns m, setName m) = None) \<longrightarrow>
              res = Inr A)))"
proof -
  have A: "getFault c (ns m, setName m) = None \<and> AllocateIP ext m r i c = Some (Inr A, c') \<longrightarrow>
      AllocateIP ext m r i c' = Some (Inr A, c')"
    by (rule impI, erule conjE) (rule AllocateIP_again)
  have B: "Get c (ns m, setName m) = Inr own \<and> map_of (Data own) (''pod_'' @ fmt_d i) = Some A \<longrightarrow>
      (\<exists>res c''. AllocateIP ext m r i c = Some (res, c'') \<and>
           (\<forall>ip. res = Inr ip \<longrightarrow> ip = A) \<and>
           stored_table c'' m = stored_table c m \<and>
           (Labels own = ipset_labels \<longrightarrow> c'' = c) \<and>
           ((\<exists>p. GetPredictableIPAM ext (NetworkParameters r) = Inr p) \<and>
            Namespace own = ns m \<and> Name own = setName m \<and>
            (Labels own = ipset_labels \<or> writeFault c (ns m, setName m) = None) \<longrightarrow>
              res = Inr A))"
    by (rule impI, erule conjE) (rule AllocateIP_held)
  show ?thesis by (rule conjI[OF A B])
qed

lemma fmt_d_small: "fmt_d 0 = ''0''" "fmt_d 1 = ''1''"
  by (simp_all add: fmt_d_def digit_char_def)

lemma pool_cluster_reads:
  "Get (pool_cluster T) (ns pool0, setName pool0) = Inr (pool_record pool0 T)"
  "read_table (pool_cluster T) pool0 = Inr T"
  "excluded_addresses ext4 pool0 (pool_cluster T) = {}"
  "getFault (pool_cluster T) (ns pool0, setName pool0) = None"
  "writeFault (pool_cluster T) (ns pool0, setName pool0) = None"
  "stored_table (pool_cluster T) pool0 = T"
  by (simp_all add: read_table_def excluded_addresses_def sibling_values_def Get_def
      stored_table_def pool_cluster_def empty_cluster_def pool0_names ext4_ipam pool_record_def)

lemma empty_cluster_reads:
  "Get empty_cluster (ns pool0, setName pool0) = Inl ErrNotFound"
  "read_table empty_cluster pool0 = Inr []"
  "excluded_addresses ext4 pool0 empty_cluster = {}"
  "getFault empty_cluster (ns pool0, setName pool0) = None"
  "writeFault empty_cluster (ns pool0, setName pool0) = None"
  "configMaps empty_cluster (ns pool0, setName pool0) = None"
  by (simp_all add: read_table_def excluded_addresses_def sibling_values_def Get_def
      empty_cluster_def)

lemma pool_record_fields:
  "Namespace (pool_record m T) = ns m" "Name (pool_record m T) = setName m"
  "Labels (pool_record m T) = ipset_labels" "Data (pool_record m T) = T"
  by (simp_all add: pool_record_def)


lemma alloc_pod0_empty:
  "AllocateIP ext4 pool0 ''10.0.0.0/24'' 0 empty_cluster =
     Some (Inr ''10.0.0.1'', pool_cluster [(''pod_0'', ''10.0.0.1'')])"
  unfolding AllocateIP_unfold ext4_ipam empty_cluster_reads fmt_d_small CreateOrPatch_pool
    Create_pool
  by (simp add: GetNextIP_first pool_cluster_def del: One_nat_def)

lemma alloc_pod1_after_pod0:
  "AllocateIP ext4 pool0 ''10.0.0.0/24'' 1 (pool_cluster [(''pod_0'', ''10.0.0.1'')]) =
     Some (Inr ''10.0.0.1'', pool_cluster [(''pod_0'', ''10.0.0.1'')])"
proof (rule AllocateIP_settled[OF ext4_ipam(1) pool_cluster_reads(1)])
  show "map_of (Data (pool_record pool0 [(''pod_0'', ''10.0.0.1'')])) (''pod_'' @ fmt_d 1) =
          Some ''10.0.0.1'' \<or>
        map_of (Data (pool_record pool0 [(''pod_0'', ''10.0.0.1'')])) (''pod_'' @ fmt_d 1) = None \<and>
        GetNextIP ext4 \<lparr>CIDR = ''10.0.0.0/24'', RangeStart = IPv4 10 0 0 1, RangeEnd = IPv4 10 0 0 5\<rparr>
          (excluded_addresses ext4 pool0 (pool_cluster [(''pod_0'', ''10.0.0.1'')])) =
          Some (Inr ''10.0.0.1'')"
    unfolding pool_cluster_reads pool_record_fields fmt_d_small
    by (simp add: GetNextIP_first del: One_nat_def)
qed (rule pool_record_fields)+

theorem AllocateIP_idempotent_witness:
  "AllocateIP ext4 pool0 ''10.0.0.0/24'' 0 empty_cluster =
     Some (Inr ''10.0.0.1'', pool_cluster [(''pod_0'', ''10.0.0.1'')]) \<and>
   AllocateIP ext4 pool0 ''10.0.0.0/24'' 0 (pool_cluster [(''pod_0'', ''10.0.0.1'')]) =
     Some (Inr ''10.0.0.1'', pool_cluster [(''pod_0'', ''10.0.0.1'')]) \<and>
   AllocateIP ext4 pool0 ''10.0.0.0/24'' 0
       (pool_cluster [(''pod_1'', ''10.0.0.2''), (''pod_0'', ''10.0.0.1'')]) =
     Some (Inr ''10.0.0.1'', pool_cluster [(''pod_1'', ''10.0.0.2''), (''pod_0'', ''10.0.0.1'')])"
proof -
  let ?c = "pool_cluster [(''pod_0'', ''10.0.0.1'')]"
  let ?T = "[(''pod_1'', ''10.0.0.2''), (''pod_0'', ''10.0.0.1'')]"
  let ?d = "pool_cluster ?T"
  note T = AllocateIP_idempotent[where ext = ext4 and m = pool0 and r = "''10.0.0.0/24''"
      and i = 0 and A = "''10.0.0.1''"]
  have first: "AllocateIP ext4 pool0 ''10.0.0.0/24'' 0 empty_cluster = Some (Inr ''10.0.0.1'', ?c)"
    by (rule alloc_pod0_empty)
  have again: "AllocateIP ext4 pool0 ''10.0.0.0/24'' 0 ?c = Some (Inr ''10.0.0.1'', ?c)"
    by (rule T[where c = empty_cluster and c' = ?c, THEN conjunct1, THEN mp,
          OF conjI[OF empty_cluster_reads(4) first]])
  have own: "Get ?d (ns pool0, setName pool0) = Inr (pool_record pool0 ?T) \<and>
      map_of (Data (pool_record pool0 ?T)) (''pod_'' @ fmt_d 0) = Some ''10.0.0.1''"
    by (simp add: pool_cluster_reads pool_record_fields fmt_d_small)
  have lab: "Labels (pool_record pool0 ?T) = ipset_labels" by (rule pool_record_fields)
  have ok: "(\<exists>p. GetPredictableIPAM ext4 (NetworkParameters ''10.0.0.0/24'') = Inr p) \<and>
      Namespace (pool_record pool0 ?T) = ns pool0 \<and> Name (pool_record pool0 ?T) = setName pool0 \<and>
      (Labels (pool_record pool0 ?T) = ipset_labels \<or>
       writeFault ?d (ns pool0, setName pool0) = None)"
    by (simp add: ext4_ipam pool_record_fields)
  from T[where c = ?d and own = "pool_record pool0 ?T", THEN conjunct2, THEN mp, OF own]
  obtain res c'' where
    r: "AllocateIP ext4 pool0 ''10.0.0.0/24'' 0 ?d = Some (res, c'')"
    and same: "Labels (pool_record pool0 ?T) = ipset_labels \<longrightarrow> c'' = ?d"
    and a: "(\<exists>p. GetPredictableIPAM ext4 (NetworkParameters ''10.0.0.0/24'') = Inr p) \<and>
      Namespace (pool_record pool0 ?T) = ns pool0 \<and> Name (pool_record pool0 ?T) = setName pool0 \<and>
      (Labels (pool_record pool0 ?T) = ipset_labels \<or>
       writeFault ?d (ns pool0, setName pool0) = None) \<longrightarrow> res = Inr ''10.0.0.1''"
    by (elim exE conjE)
  from a ok have res: "res = Inr ''10.0.0.1''" by (rule mp)
  from same lab have c'': "c'' = ?d" by (rule mp)
  from r have third: "AllocateIP ext4 pool0 ''10.0.0.0/24'' 0 ?d = Some (Inr ''10.0.0.1'', ?d)"
    unfolding res c'' .
  show ?thesis by (rule conjI[OF first conjI[OF again third]])
qed




text \<open>
  Claim C2 at an input where the code departs from it. On an empty cluster, with no
  sibling pool and no failure, over the range from 10.0.0.1 to 10.0.0.5, the allocations
  for pod indices 0 and 1, one after the other, both return 10.0.0.1: the walk excludes
  the addresses of the sibling pools only, not those of the pool's own table.
\<close>

theorem allocate_sequence_repeats_address:
  "allocate_sequence ext4 pool0 ''10.0.0.0/24'' [0, 1] empty_cluster =
     Some ([Inr ''10.0.0.1'', Inr ''10.0.0.1''], pool_cluster [(''pod_0'', ''10.0.0.1'')])"
  by (simp add: alloc_pod0_empty alloc_pod1_after_pod0)

end
